theory Spec2Isabelle
  imports Complex_Main "HOL-Library.AList"
begin

section \<open>Values, paths and property keys\<close>

text \<open>
  The helpers of \<^verbatim>\<open>src/pages/index.tsx\<close> work on whatever \<^verbatim>\<open>JSON.parse\<close> returns:
  \<^verbatim>\<open>null\<close>, booleans, numbers, strings, arrays and plain objects, and on \<^verbatim>\<open>undefined\<close>,
  which a missing property reads as. A number is a rational (the rounding of the host's
  floating-point numbers, its infinities and the sign of zero are left out). An object is
  the list of its own properties in the order JavaScript enumerates them. An array is the
  list of its elements (a hole reads as \<^verbatim>\<open>undefined\<close>) together with the properties stored
  under names that are not array indices, which \<^verbatim>\<open>arr["k"] = v\<close> creates.

  Indexing reaches beyond the own properties: an array and a string have a \<^verbatim>\<open>length\<close>, and
  every value that is not \<^verbatim>\<open>null\<close> or \<^verbatim>\<open>undefined\<close> inherits the properties of the host's
  built-in prototypes. Of those, \<^verbatim>\<open>constructor\<close> is read as \<open>JFun\<close>, which stands for a
  built-in constructor function (\<^verbatim>\<open>Object\<close>, \<^verbatim>\<open>Array\<close>, \<^verbatim>\<open>String\<close>, \<^verbatim>\<open>Number\<close>, \<^verbatim>\<open>Boolean\<close>,
  \<^verbatim>\<open>Function\<close>); what the other inherited names hold is not described, and a read that
  finds one of them ends in \<open>Outside\<close>.
\<close>

datatype jv =
    JUndef
  | JNull
  | JBool bool
  | JNum rat
  | JStr string
  | JArr "jv list" "(string \<times> jv) list"
  | JObj "(string \<times> jv) list"
  | JFun

text \<open>
  A path segment is \<^verbatim>\<open>string | number\<close>; the numbers of a path are array indices, that is
  natural numbers (the non-negative integers of the specification's data model). A path
  itself may be \<^verbatim>\<open>undefined\<close>, which is \<open>None\<close>.
\<close>

datatype seg = Key string | Idx nat

type_synonym path = "seg list"

text \<open>
  What ends a computation early: one of the exceptions of JavaScript, which a
  \<^verbatim>\<open>try\<close>/\<^verbatim>\<open>catch\<close> catches, or \<open>Outside\<close>, which is no event of the program: it marks a step
  whose result depends on parts of the host that are not described here, and says nothing
  about what the program does from there.
\<close>

datatype fault = TypeError | RangeError | SyntaxError | Outside

subsection \<open>Property keys\<close>

text \<open>
  \<^verbatim>\<open>cursor[seg]\<close> converts the segment to a property key: a string is its own key, a number
  below \<open>10^21\<close> is written in decimal. JavaScript writes the numbers from \<open>10^21\<close> on with
  an exponent; indexing with such a segment is \<open>Outside\<close>.
\<close>

definition digit_char :: "nat \<Rightarrow> char" where
  "digit_char d = ''0123456789'' ! d"

function decimal :: "nat \<Rightarrow> string" where
  "decimal n = (if n < 10 then [digit_char n] else decimal (n div 10) @ [digit_char (n mod 10)])"
  by pat_completeness auto
termination
  by (relation "measure id") auto

declare decimal.simps [simp del]

definition is_digit :: "char \<Rightarrow> bool" where
  "is_digit c = (c \<in> set ''0123456789'')"

definition digit_val :: "char \<Rightarrow> nat" where
  "digit_val c = of_char c - 48"

definition digits_val :: "string \<Rightarrow> nat" where
  "digits_val s = foldl (\<lambda>acc c. 10 * acc + digit_val c) 0 s"

fun to_key :: "seg \<Rightarrow> string" where
  "to_key (Key s) = s"
| "to_key (Idx n) = decimal n"

fun decimal_seg :: "seg \<Rightarrow> bool" where
  "decimal_seg (Key s) = True"
| "decimal_seg (Idx n) = (int n < 1000000000000000000000)"

text \<open>
  A key is an integer index when it is the decimal form of a natural number; the integer
  indices below the length of a string address its characters. It is an array index when
  the number is below \<open>2^32 - 1\<close>: such keys address the elements of an array, and an
  object enumerates them first, in ascending order.
\<close>

definition canonical_index :: "string \<Rightarrow> nat option" where
  "canonical_index k =
     (if k \<noteq> [] \<and> list_all is_digit k \<and> decimal (digits_val k) = k
      then Some (digits_val k) else None)"

definition array_index :: "string \<Rightarrow> nat option" where
  "array_index k =
     (case canonical_index k of
        Some n \<Rightarrow> if int n < 4294967295 then Some n else None
      | None \<Rightarrow> None)"

subsection \<open>Inherited names\<close>

text \<open>
  The names under which \<^verbatim>\<open>Object.prototype\<close>, \<^verbatim>\<open>Array.prototype\<close>, \<^verbatim>\<open>String.prototype\<close>,
  \<^verbatim>\<open>Number.prototype\<close> and \<^verbatim>\<open>Boolean.prototype\<close> hold a property in some edition of the
  language or in some engine. The list is used for every kind of value, so it names more
  than any one value inherits; a read under a listed name that finds no own property is
  \<open>Outside\<close>, and only a name that is not listed reads as \<^verbatim>\<open>undefined\<close>.
\<close>

definition prototype_names :: "string list" where
  "prototype_names =
     [''constructor'', ''__proto__'', ''__defineGetter__'', ''__defineSetter__'',
      ''__lookupGetter__'', ''__lookupSetter__'', ''__noSuchMethod__'', ''__count__'',
      ''__parent__'', ''hasOwnProperty'', ''isPrototypeOf'', ''propertyIsEnumerable'',
      ''toString'', ''toLocaleString'', ''valueOf'', ''toSource'', ''watch'', ''unwatch'',
      ''eval'', ''toJSON'',
      ''at'', ''concat'', ''copyWithin'', ''entries'', ''every'', ''fill'', ''filter'', ''find'',
      ''findIndex'', ''findLast'', ''findLastIndex'', ''flat'', ''flatMap'', ''flatten'',
      ''forEach'', ''group'', ''groupBy'', ''groupToMap'', ''groupByToMap'', ''includes'',
      ''contains'', ''indexOf'', ''join'', ''keys'', ''lastIndexOf'', ''lastItem'',
      ''lastIndex'', ''map'', ''pop'', ''push'', ''reduce'', ''reduceRight'', ''reverse'',
      ''shift'', ''slice'', ''some'', ''sort'', ''splice'', ''toReversed'', ''toSorted'',
      ''toSpliced'', ''uniqueBy'', ''unshift'', ''values'', ''with'',
      ''anchor'', ''big'', ''blink'', ''bold'', ''charAt'', ''charCodeAt'', ''codePointAt'',
      ''codePoints'', ''dedent'', ''endsWith'', ''fixed'', ''fontcolor'', ''fontsize'',
      ''isWellFormed'', ''italics'', ''link'', ''localeCompare'', ''match'', ''matchAll'',
      ''normalize'', ''padEnd'', ''padStart'', ''padLeft'', ''padRight'', ''quote'', ''repeat'',
      ''replace'', ''replaceAll'', ''search'', ''small'', ''split'', ''startsWith'', ''strike'',
      ''sub'', ''substr'', ''substring'', ''sup'', ''toLocaleLowerCase'',
      ''toLocaleUpperCase'', ''toLowerCase'', ''toUpperCase'', ''toWellFormed'', ''trim'',
      ''trimEnd'', ''trimLeft'', ''trimRight'', ''trimStart'',
      ''toExponential'', ''toFixed'', ''toPrecision'', ''clamp'', ''filterOut'', ''filterReject'']"

subsection \<open>What indexing finds\<close>

text \<open>
  The functions of this subsection are polymorphic in the type of the stored values, so
  that the value model and the store model below share them. Looking a key up in a value
  finds an own property, a character of a string, the length of an array or a string,
  the inherited \<^verbatim>\<open>constructor\<close>, nothing, or an inherited property that is not described.
\<close>

datatype 'v found = Own 'v | Chars string | Count nat | Ctor | Absent | Unknown

definition inherited :: "string \<Rightarrow> 'v found" where
  "inherited k =
     (if k = ''constructor'' then Ctor
      else if k \<in> set prototype_names then Unknown
      else Absent)"

definition obj_find :: "(string \<times> 'v) list \<Rightarrow> string \<Rightarrow> 'v found" where
  "obj_find kvs k = (case map_of kvs k of Some v \<Rightarrow> Own v | None \<Rightarrow> inherited k)"

definition arr_find :: "'v list \<Rightarrow> (string \<times> 'v) list \<Rightarrow> string \<Rightarrow> 'v found" where
  "arr_find es ps k =
     (case array_index k of
        Some i \<Rightarrow> if i < length es then Own (es ! i) else Absent
      | None \<Rightarrow> if k = ''length'' then Count (length es) else obj_find ps k)"

definition str_find :: "string \<Rightarrow> string \<Rightarrow> 'v found" where
  "str_find s k =
     (case canonical_index k of
        Some i \<Rightarrow> if i < length s then Chars [s ! i] else Absent
      | None \<Rightarrow> if k = ''length'' then Count (length s) else inherited k)"

text \<open>The lookup under the key of a segment.\<close>

definition seg_find :: "(string \<Rightarrow> 'v found) \<Rightarrow> seg \<Rightarrow> 'v found" where
  "seg_find f seg = (if decimal_seg seg then f (to_key seg) else Unknown)"

subsection \<open>Own properties and assignment\<close>

fun insert_index :: "nat \<Rightarrow> string \<times> 'v \<Rightarrow> (string \<times> 'v) list \<Rightarrow> (string \<times> 'v) list" where
  "insert_index i e [] = [e]"
| "insert_index i e (p # ps) =
     (case array_index (fst p) of
        Some j \<Rightarrow> if j < i then p # insert_index i e ps else e # p # ps
      | None \<Rightarrow> e # p # ps)"

text \<open>
  Defining the own property \<open>k\<close> (as object spread and \<^verbatim>\<open>JSON.parse\<close> do, and as an
  assignment does once it has found no setter): an existing property keeps its place; a
  new one goes after the others, except that a new array-index key is placed among the
  index keys at the front.
\<close>

definition obj_put :: "string \<Rightarrow> 'v \<Rightarrow> (string \<times> 'v) list \<Rightarrow> (string \<times> 'v) list" where
  "obj_put k v kvs =
     (if k \<in> fst ` set kvs then AList.update k v kvs
      else case array_index k of
             Some i \<Rightarrow> insert_index i (k, v) kvs
           | None \<Rightarrow> kvs @ [(k, v)])"

text \<open>
  \<^verbatim>\<open>obj[k] = v\<close> on an object whose prototype is \<^verbatim>\<open>Object.prototype\<close>, in strict code. An own
  property is overwritten. Otherwise the assignment looks at the prototype: every
  property there is a writable data property, over which the assignment defines an own
  property, except \<^verbatim>\<open>__proto__\<close>, whose setter ignores a value that is neither an object nor
  \<^verbatim>\<open>null\<close> (\<open>ignored\<close>) and otherwise replaces the prototype, which is \<open>Outside\<close>.
\<close>

definition obj_assign ::
  "(string \<times> 'v) list \<Rightarrow> string \<Rightarrow> 'v \<Rightarrow> bool \<Rightarrow> fault + (string \<times> 'v) list" where
  "obj_assign kvs k v ignored =
     (if k \<in> fst ` set kvs then Inr (obj_put k v kvs)
      else if k = ''__proto__'' then (if ignored then Inr kvs else Inl Outside)
      else Inr (obj_put k v kvs))"

text \<open>
  \<^verbatim>\<open>arr.length = v\<close> with the length \<open>n\<close> that \<open>v\<close> converts to: the elements from \<open>n\<close> on are
  deleted, or holes are added up to \<open>n\<close>.
\<close>

definition set_length :: "'v \<Rightarrow> 'v list \<Rightarrow> nat \<Rightarrow> 'v list" where
  "set_length u es n = take n es @ replicate (n - length es) u"

text \<open>
  \<^verbatim>\<open>arr[k] = v\<close>: writing an element past the end leaves holes in between; \<open>len\<close> is the
  length that \<open>v\<close> converts to, or the fault of the conversion; \<open>u\<close> is \<^verbatim>\<open>undefined\<close>.
\<close>

definition arr_assign ::
  "'v \<Rightarrow> 'v list \<Rightarrow> (string \<times> 'v) list \<Rightarrow> string \<Rightarrow> 'v \<Rightarrow> fault + nat \<Rightarrow> bool \<Rightarrow>
   fault + 'v list \<times> (string \<times> 'v) list" where
  "arr_assign u es ps k v len ignored =
     (case array_index k of
        Some i \<Rightarrow>
          Inr (if i < length es then es[i := v] else es @ replicate (i - length es) u @ [v], ps)
      | None \<Rightarrow>
          if k = ''length''
          then (case len of Inl e \<Rightarrow> Inl e | Inr n \<Rightarrow> Inr (set_length u es n, ps))
          else (case obj_assign ps k v ignored of Inl e \<Rightarrow> Inl e | Inr ps' \<Rightarrow> Inr (es, ps')))"

text \<open>The own enumerable properties of a string are its characters, under their indices.\<close>

definition str_entries :: "(string \<Rightarrow> 'v) \<Rightarrow> string \<Rightarrow> (string \<times> 'v) list" where
  "str_entries mk s = map (\<lambda>i. (decimal i, mk [s ! i])) [0..<length s]"

text \<open>
  The length that the assigned value of \<^verbatim>\<open>arr.length = v\<close> converts to: the value is
  converted to a number, and a number that is not an integer from \<open>0\<close> to \<open>2^32 - 1\<close> is a
  \<^verbatim>\<open>RangeError\<close>. Of the strings, the decimal forms of natural numbers convert to their
  number, and a string that starts with a letter other than \<^verbatim>\<open>I\<close> converts to \<^verbatim>\<open>NaN\<close>; the
  conversion of the other strings is not described.
\<close>

definition is_letter :: "char \<Rightarrow> bool" where
  "is_letter c = (c \<in> set ''abcdefghijklmnopqrstuvwxyzABCDEFGHIJKLMNOPQRSTUVWXYZ'')"

definition string_length_value :: "string \<Rightarrow> fault + nat" where
  "string_length_value s =
     (case canonical_index s of
        Some n \<Rightarrow> if int n \<le> 4294967295 then Inr n else Inl RangeError
      | None \<Rightarrow>
          if s \<noteq> [] \<and> is_letter (hd s) \<and> hd s \<noteq> CHR ''I'' then Inl RangeError else Inl Outside)"

definition number_length_value :: "rat \<Rightarrow> fault + nat" where
  "number_length_value n =
     (if n = of_int \<lfloor>n\<rfloor> \<and> 0 \<le> n \<and> n \<le> 4294967295 then Inr (nat \<lfloor>n\<rfloor>) else Inl RangeError)"

section \<open>The helpers on values\<close>

text \<open>\<^verbatim>\<open>x == null\<close> holds of \<^verbatim>\<open>null\<close> and \<^verbatim>\<open>undefined\<close>.\<close>

definition nullish :: "jv \<Rightarrow> bool" where
  "nullish x = (x = JUndef \<or> x = JNull)"

text \<open>The value that a lookup yields.\<close>

fun read_found :: "jv found \<Rightarrow> fault + jv" where
  "read_found (Own v) = Inr v"
| "read_found (Chars s) = Inr (JStr s)"
| "read_found (Count n) = Inr (JNum (of_nat n))"
| "read_found Ctor = Inr JFun"
| "read_found Absent = Inr JUndef"
| "read_found Unknown = Inl Outside"

text \<open>
  \<^verbatim>\<open>cursor[seg]\<close>, which throws on \<^verbatim>\<open>null\<close> and \<^verbatim>\<open>undefined\<close>. A boolean and a number have no own
  properties. The built-in constructors are functions without own \<^verbatim>\<open>caller\<close> and
  \<^verbatim>\<open>arguments\<close>; they inherit from \<^verbatim>\<open>Function.prototype\<close> the accessors of these names, which
  throw a \<^verbatim>\<open>TypeError\<close>, and the \<^verbatim>\<open>constructor\<close> \<^verbatim>\<open>Function\<close>.
\<close>

fun prop_read :: "jv \<Rightarrow> seg \<Rightarrow> fault + jv" where
  "prop_read JUndef seg = Inl TypeError"
| "prop_read JNull seg = Inl TypeError"
| "prop_read (JBool b) seg = read_found (seg_find inherited seg)"
| "prop_read (JNum n) seg = read_found (seg_find inherited seg)"
| "prop_read (JStr s) seg = read_found (seg_find (str_find s) seg)"
| "prop_read (JArr es ps) seg = read_found (seg_find (arr_find es ps) seg)"
| "prop_read (JObj kvs) seg = read_found (seg_find (obj_find kvs) seg)"
| "prop_read JFun seg =
     (if seg = Key ''caller'' \<or> seg = Key ''arguments'' then Inl TypeError
      else if seg = Key ''constructor'' then Inr JFun
      else Inl Outside)"

text \<open>The conversions of an assigned value that \<^verbatim>\<open>arr.length = v\<close> and the setter of
  \<^verbatim>\<open>__proto__\<close> make. Converting an array, an object or a function to a number calls its
  \<^verbatim>\<open>valueOf\<close> and \<^verbatim>\<open>toString\<close>, which is not described.\<close>

fun length_value :: "jv \<Rightarrow> fault + nat" where
  "length_value JUndef = Inl RangeError"
| "length_value JNull = Inr 0"
| "length_value (JBool b) = Inr (if b then 1 else 0)"
| "length_value (JNum n) = number_length_value n"
| "length_value (JStr s) = string_length_value s"
| "length_value _ = Inl Outside"

fun setter_ignores :: "jv \<Rightarrow> bool" where
  "setter_ignores JUndef = True"
| "setter_ignores (JBool b) = True"
| "setter_ignores (JNum n) = True"
| "setter_ignores (JStr s) = True"
| "setter_ignores _ = False"

text \<open>
  \<^verbatim>\<open>cursor[seg] = v\<close>; the module is strict code, where the assignment throws unless
  \<^verbatim>\<open>cursor\<close> is an object. The assignment to a property of a function is not described.
\<close>

fun prop_write :: "jv \<Rightarrow> seg \<Rightarrow> jv \<Rightarrow> fault + jv" where
  "prop_write (JArr es ps) seg v =
     (if decimal_seg seg
      then (case arr_assign JUndef es ps (to_key seg) v (length_value v) (setter_ignores v) of
              Inl e \<Rightarrow> Inl e
            | Inr (es', ps') \<Rightarrow> Inr (JArr es' ps'))
      else Inl Outside)"
| "prop_write (JObj kvs) seg v =
     (if decimal_seg seg
      then (case obj_assign kvs (to_key seg) v (setter_ignores v) of
              Inl e \<Rightarrow> Inl e
            | Inr kvs' \<Rightarrow> Inr (JObj kvs'))
      else Inl Outside)"
| "prop_write JFun seg v = Inl Outside"
| "prop_write _ seg v = Inl TypeError"

text \<open>
  \<^verbatim>\<open>Array.isArray(x) ? [...x] : { ...x }\<close>. Spreading an array copies its elements and not
  its named properties; spreading an object copies its own properties; spreading a string
  into an object gives one property per character; spreading any other value, a built-in
  constructor included, gives \<^verbatim>\<open>{}\<close>.
\<close>

fun shallow_copy :: "jv \<Rightarrow> jv" where
  "shallow_copy (JArr es ps) = JArr es []"
| "shallow_copy (JObj kvs) = JObj kvs"
| "shallow_copy (JStr s) = JObj (str_entries JStr s)"
| "shallow_copy _ = JObj []"

text \<open>\<^verbatim>\<open>typeof nextSeg === "number" ? [] : {}\<close>\<close>

fun fresh_container :: "seg \<Rightarrow> jv" where
  "fresh_container (Idx n) = JArr [] []"
| "fresh_container (Key s) = JObj []"

subsection \<open>getValueAtPath\<close>

fun get_loop :: "jv \<Rightarrow> seg list \<Rightarrow> fault + jv" where
  "get_loop cursor [] = Inr cursor"
| "get_loop cursor (seg # segs) =
     (if nullish cursor then Inr JUndef
      else case prop_read cursor seg of
             Inl e \<Rightarrow> Inl e
           | Inr next \<Rightarrow> get_loop next segs)"

definition getValueAtPath :: "jv \<Rightarrow> path option \<Rightarrow> fault + jv" where
  "getValueAtPath rootv p =
     (case p of
        None \<Rightarrow> Inr rootv
      | Some segs \<Rightarrow> if segs = [] then Inr rootv else get_loop rootv segs)"

subsection \<open>setValueAtPath\<close>

text \<open>
  The loop of \<^verbatim>\<open>setValueAtPath\<close> walks a cursor down the copies it makes and assigns into
  them. On values the assignments below the cursor are written back into the cursor's
  property once the rest of the walk is done, which is what the shared reference gives
  in the source. The store model further down keeps the references and follows the
  source statement by statement; the last section proves that the two agree.
\<close>

fun set_loop :: "jv \<Rightarrow> seg list \<Rightarrow> jv \<Rightarrow> fault + jv" where
  "set_loop cursor [] v = Inr cursor"
| "set_loop cursor [lastSeg] v = prop_write cursor lastSeg v"
| "set_loop cursor (seg # nextSeg # rest) v =
     (case prop_read cursor seg of
        Inl e \<Rightarrow> Inl e
      | Inr cur \<Rightarrow>
          (case prop_write cursor seg
                  (if cur = JUndef \<or> cur = JNull then fresh_container nextSeg else shallow_copy cur) of
             Inl e \<Rightarrow> Inl e
           | Inr cursor1 \<Rightarrow>
               (case prop_read cursor1 seg of
                  Inl e \<Rightarrow> Inl e
                | Inr next \<Rightarrow>
                    (case set_loop next (nextSeg # rest) v of
                       Inl e \<Rightarrow> Inl e
                     | Inr next' \<Rightarrow> prop_write cursor1 seg next'))))"

definition setValueAtPath :: "jv \<Rightarrow> path option \<Rightarrow> jv \<Rightarrow> fault + jv" where
  "setValueAtPath rootv p v =
     (case p of
        None \<Rightarrow> Inr v
      | Some segs \<Rightarrow> if segs = [] then Inr v else set_loop (shallow_copy rootv) segs v)"

subsection \<open>pathEquals\<close>

text \<open>\<^verbatim>\<open>b[i]\<close> on an array: \<^verbatim>\<open>undefined\<close> (here \<open>None\<close>) past the end.\<close>

definition at_index :: "'a list \<Rightarrow> nat \<Rightarrow> 'a option" where
  "at_index xs i = (if i < length xs then Some (xs ! i) else None)"

text \<open>
  \<^verbatim>\<open>a.every((v, i) => v === b[i])\<close>: strict equality of two segments holds when both are
  strings with the same characters or both are the same number.
\<close>

definition every_segment_equal :: "seg list \<Rightarrow> seg list \<Rightarrow> bool" where
  "every_segment_equal a b = list_all (\<lambda>i. at_index a i = at_index b i) [0..<length a]"

definition pathEquals :: "path option \<Rightarrow> path option \<Rightarrow> bool" where
  "pathEquals a b =
     (if a = None \<and> b = None then True
      else if a = None \<or> b = None then False
      else if length (the a) \<noteq> length (the b) then False
      else every_segment_equal (the a) (the b))"

section \<open>Nodes and their text\<close>

text \<open>
  The type \<^verbatim>\<open>NodeData\<close> is declared in \<^verbatim>\<open>types/graph\<close>; the helpers use the \<^verbatim>\<open>text\<close> and
  \<^verbatim>\<open>path\<close> of a node and the \<^verbatim>\<open>key\<close>, \<^verbatim>\<open>value\<close> and \<^verbatim>\<open>type\<close> of a row. A key may be
  missing, and the source tests it for truthiness, which fails for a missing key and for
  the empty string.
\<close>

record NodeRow =
  row_key :: "string option"
  row_value :: jv
  row_type :: string

record NodeData =
  node_text :: "NodeRow list option"
  node_path :: "path option"

definition falsy_key :: "string option \<Rightarrow> bool" where
  "falsy_key k = (k = None \<or> k = Some [])"

text \<open>
  The template literal \<^verbatim>\<open>`${value}`\<close> converts a value to a string: a string is itself,
  an array is its elements joined by commas (\<^verbatim>\<open>null\<close> and \<^verbatim>\<open>undefined\<close> as nothing), an
  object is \<^verbatim>\<open>[object Object]\<close>. How a number is written is the parameter \<open>num_str\<close>. The
  conversion of an array or an object looks up \<^verbatim>\<open>toString\<close>, \<^verbatim>\<open>valueOf\<close> and, for an array,
  \<^verbatim>\<open>join\<close>; it is described when these are the inherited ones, and so is not the
  conversion of a function.
\<close>

fun join_with :: "string \<Rightarrow> string list \<Rightarrow> string" where
  "join_with sep [] = []"
| "join_with sep [x] = x"
| "join_with sep (x # y # ys) = x @ sep @ join_with sep (y # ys)"

definition own_conversion :: "(string \<times> 'v) list \<Rightarrow> bool" where
  "own_conversion kvs =
     (map_of kvs ''toString'' \<noteq> None \<or> map_of kvs ''valueOf'' \<noteq> None \<or> map_of kvs ''join'' \<noteq> None)"

fun template_string :: "(rat \<Rightarrow> string) \<Rightarrow> jv \<Rightarrow> fault + string"
  and template_elements :: "(rat \<Rightarrow> string) \<Rightarrow> jv list \<Rightarrow> fault + string list" where
  "template_string num_str JUndef = Inr ''undefined''"
| "template_string num_str JNull = Inr ''null''"
| "template_string num_str (JBool b) = Inr (if b then ''true'' else ''false'')"
| "template_string num_str (JNum n) = Inr (num_str n)"
| "template_string num_str (JStr s) = Inr s"
| "template_string num_str (JArr es ps) =
     (if own_conversion ps then Inl Outside
      else case template_elements num_str es of
             Inl e \<Rightarrow> Inl e
           | Inr strs \<Rightarrow> Inr (join_with '','' strs))"
| "template_string num_str (JObj kvs) =
     (if own_conversion kvs then Inl Outside else Inr ''[object Object]'')"
| "template_string num_str JFun = Inl Outside"
| "template_elements num_str [] = Inr []"
| "template_elements num_str (e # es) =
     (case (if e = JUndef \<or> e = JNull then Inr [] else template_string num_str e) of
        Inl f \<Rightarrow> Inl f
      | Inr s \<Rightarrow>
          (case template_elements num_str es of
             Inl f \<Rightarrow> Inl f
           | Inr strs \<Rightarrow> Inr (s # strs)))"

subsection \<open>normalizeNodeData\<close>

text \<open>
  The body of the \<^verbatim>\<open>forEach\<close>: one row, assigned into the object built so far by
  \<^verbatim>\<open>obj[row.key] = row.value\<close>.
\<close>

definition add_row :: "(string \<times> jv) list \<Rightarrow> NodeRow \<Rightarrow> fault + (string \<times> jv) list" where
  "add_row obj row =
     (if row_type row \<noteq> ''array'' \<and> row_type row \<noteq> ''object''
      then (if \<not> falsy_key (row_key row)
            then obj_assign obj (the (row_key row)) (row_value row) (setter_ignores (row_value row))
            else Inr obj)
      else Inr obj)"

fun add_rows :: "(string \<times> jv) list \<Rightarrow> NodeRow list \<Rightarrow> fault + (string \<times> jv) list" where
  "add_rows obj [] = Inr obj"
| "add_rows obj (row # rows) =
     (case add_row obj row of
        Inl e \<Rightarrow> Inl e
      | Inr obj' \<Rightarrow> add_rows obj' rows)"

definition row_object :: "NodeRow list \<Rightarrow> fault + (string \<times> jv) list" where
  "row_object rows = add_rows [] rows"

text \<open>
  \<open>stringify\<close> is \<^verbatim>\<open>JSON.stringify(_, null, 2)\<close> of the host; the helpers only pass its
  result on.
\<close>

definition normalizeNodeData ::
  "(jv \<Rightarrow> string) \<Rightarrow> (rat \<Rightarrow> string) \<Rightarrow> NodeRow list option \<Rightarrow> fault + string" where
  "normalizeNodeData stringify num_str nodeRows =
     (if nodeRows = None \<or> length (the nodeRows) = 0 then Inr ''{}''
      else if length (the nodeRows) = 1 \<and> falsy_key (row_key (the nodeRows ! 0))
      then template_string num_str (row_value (the nodeRows ! 0))
      else case row_object (the nodeRows) of
             Inl e \<Rightarrow> Inl e
           | Inr obj \<Rightarrow> Inr (stringify (JObj obj)))"

section \<open>handleSave\<close>

text \<open>
  The state that \<^verbatim>\<open>handleSave\<close> reads and writes: the document text of the \<^verbatim>\<open>useJson\<close>
  store, the selected node of the \<^verbatim>\<open>useGraph\<close> store, and the component's own
  \<^verbatim>\<open>editedText\<close>, \<^verbatim>\<open>isEditing\<close> and \<^verbatim>\<open>error\<close>. \<open>closed\<close> records the call of \<^verbatim>\<open>onClose\<close>,
  and \<open>timer\<close> the callback handed to \<^verbatim>\<open>setTimeout\<close>, which keeps the path of the node
  that was selected when it was created.
\<close>

record state =
  json :: string
  selectedNode :: "NodeData option"
  editedText :: string
  isEditing :: bool
  error :: "string option"
  closed :: bool
  timer :: "path option option"

definition invalid_json_message :: string where
  "invalid_json_message =
     ''Invalid JSON '' @ [CHR 0xE2, CHR 0x80, CHR 0x94] @ '' please fix syntax before saving''"

definition no_target_message :: string where
  "no_target_message = ''No target node selected''"

text \<open>\<^verbatim>\<open>{ ...target, ...parsed }\<close> for two plain objects.\<close>

definition overlay :: "(string \<times> 'v) list \<Rightarrow> (string \<times> 'v) list \<Rightarrow> (string \<times> 'v) list" where
  "overlay target parsed = foldl (\<lambda>obj (k, v). obj_put k v obj) target parsed"

text \<open>
  \<^verbatim>\<open>typeof x === "object" && x !== null && !Array.isArray(x)\<close> holds of the plain objects.
\<close>

fun plain_object :: "jv \<Rightarrow> bool" where
  "plain_object (JObj kvs) = True"
| "plain_object _ = False"

fun own_properties :: "jv \<Rightarrow> (string \<times> jv) list" where
  "own_properties (JObj kvs) = kvs"
| "own_properties _ = []"

text \<open>
  The value that is written at the node's path: the branches of \<^verbatim>\<open>handleSave\<close> between
  \<^verbatim>\<open>const nodeRows\<close> and the calls of \<^verbatim>\<open>setJson\<close>.
\<close>

definition new_root :: "jv \<Rightarrow> NodeData \<Rightarrow> jv \<Rightarrow> fault + jv" where
  "new_root rootObj nodeData parsed =
     (let nodeRows = (case node_text nodeData of Some rows \<Rightarrow> rows | None \<Rightarrow> []) in
      if length nodeRows = 1 \<and> falsy_key (row_key (nodeRows ! 0))
      then setValueAtPath rootObj (node_path nodeData) parsed
      else case getValueAtPath rootObj (node_path nodeData) of
             Inl e \<Rightarrow> Inl e
           | Inr target \<Rightarrow>
               if plain_object parsed
               then (if plain_object target
                     then setValueAtPath rootObj (node_path nodeData)
                            (JObj (overlay (own_properties target) (own_properties parsed)))
                     else setValueAtPath rootObj (node_path nodeData) parsed)
               else setValueAtPath rootObj (node_path nodeData) parsed)"

text \<open>
  The body of the \<^verbatim>\<open>try\<close> block. \<open>parse\<close> is \<^verbatim>\<open>JSON.parse\<close> of the host, \<open>None\<close> when it
  throws; everything thrown inside the block is \<open>Inl\<close>. No state is written before the
  last call that can throw.
\<close>

definition try_save ::
  "(string \<Rightarrow> jv option) \<Rightarrow> (jv \<Rightarrow> string) \<Rightarrow> state \<Rightarrow> fault + state" where
  "try_save parse stringify st =
     (case parse (editedText st) of
        None \<Rightarrow> Inl SyntaxError
      | Some parsed \<Rightarrow>
          (let rootObj = (case parse (json st) of Some r \<Rightarrow> r | None \<Rightarrow> JObj []) in
           (case selectedNode st of
              None \<Rightarrow> Inr (st\<lparr>error := Some no_target_message\<rparr>)
            | Some nodeData \<Rightarrow>
                (case new_root rootObj nodeData parsed of
                   Inl e \<Rightarrow> Inl e
                 | Inr newRoot \<Rightarrow>
                     Inr (st\<lparr>json := stringify newRoot,
                             timer := Some (node_path nodeData),
                             isEditing := False,
                             closed := True\<rparr>)))))"

text \<open>
  \<^verbatim>\<open>handleSave\<close>: \<^verbatim>\<open>setError(null)\<close>, the \<^verbatim>\<open>try\<close> block, and the \<^verbatim>\<open>catch\<close>, which takes every
  exception and sets the error message. The result is the state that \<^verbatim>\<open>handleSave\<close>
  leaves, or \<open>None\<close> when the run is \<open>Outside\<close>.
\<close>

definition handleSave ::
  "(string \<Rightarrow> jv option) \<Rightarrow> (jv \<Rightarrow> string) \<Rightarrow> state \<Rightarrow> state option" where
  "handleSave parse stringify st =
     (case try_save parse stringify (st\<lparr>error := None\<rparr>) of
        Inl e \<Rightarrow> if e = Outside then None else Some (st\<lparr>error := Some invalid_json_message\<rparr>)
      | Inr st' \<Rightarrow> Some st')"

text \<open>
  The callback of the timer, run with the nodes the graph holds by then: the first node
  whose path equals the kept path becomes the selected node.
\<close>

definition reselect :: "NodeData list \<Rightarrow> state \<Rightarrow> state" where
  "reselect nodes st =
     (case timer st of
        None \<Rightarrow> st
      | Some p \<Rightarrow>
          (case find (\<lambda>n. pathEquals (node_path n) p) nodes of
             Some match \<Rightarrow> st\<lparr>selectedNode := Some match, timer := None\<rparr>
           | None \<Rightarrow> st\<lparr>timer := None\<rparr>))"

section \<open>setValueAtPath on a store\<close>

text \<open>
  Arrays and objects are references in JavaScript, and \<^verbatim>\<open>setValueAtPath\<close> copies and
  assigns through them. Here a value is a primitive, a built-in constructor or a
  reference to a cell of the store; a new array or object is a new cell at the end of
  the store, and an assignment \<^verbatim>\<open>cursor[seg] = v\<close> replaces the cell that \<^verbatim>\<open>cursor\<close> refers
  to. The loops are those of the source, statement by statement.
\<close>

datatype val = VUndef | VNull | VBool bool | VNum rat | VStr string | VRef nat | VFun

datatype cell =
    CArr "val list" "(string \<times> val) list"
  | CObj "(string \<times> val) list"

type_synonym store = "cell list"

text \<open>The value that a lookup yields, and the conversions of an assigned value.\<close>

fun val_found :: "val found \<Rightarrow> fault + val" where
  "val_found (Own v) = Inr v"
| "val_found (Chars s) = Inr (VStr s)"
| "val_found (Count n) = Inr (VNum (of_nat n))"
| "val_found Ctor = Inr VFun"
| "val_found Absent = Inr VUndef"
| "val_found Unknown = Inl Outside"

fun val_length_value :: "val \<Rightarrow> fault + nat" where
  "val_length_value VUndef = Inl RangeError"
| "val_length_value VNull = Inr 0"
| "val_length_value (VBool b) = Inr (if b then 1 else 0)"
| "val_length_value (VNum n) = number_length_value n"
| "val_length_value (VStr s) = string_length_value s"
| "val_length_value _ = Inl Outside"

fun val_setter_ignores :: "val \<Rightarrow> bool" where
  "val_setter_ignores VUndef = True"
| "val_setter_ignores (VBool b) = True"
| "val_setter_ignores (VNum n) = True"
| "val_setter_ignores (VStr s) = True"
| "val_setter_ignores _ = False"

text \<open>What a key finds in a cell, and the cell after an assignment to it.\<close>

definition cell_find :: "cell \<Rightarrow> string \<Rightarrow> val found" where
  "cell_find c k = (case c of CArr es ps \<Rightarrow> arr_find es ps k | CObj kvs \<Rightarrow> obj_find kvs k)"

definition cell_assign :: "cell \<Rightarrow> string \<Rightarrow> val \<Rightarrow> fault + cell" where
  "cell_assign c k v =
     (case c of
        CArr es ps \<Rightarrow>
          (case arr_assign VUndef es ps k v (val_length_value v) (val_setter_ignores v) of
             Inl e \<Rightarrow> Inl e
           | Inr (es', ps') \<Rightarrow> Inr (CArr es' ps'))
      | CObj kvs \<Rightarrow>
          (case obj_assign kvs k v (val_setter_ignores v) of
             Inl e \<Rightarrow> Inl e
           | Inr kvs' \<Rightarrow> Inr (CObj kvs')))"

text \<open>
  \<^verbatim>\<open>cursor[seg]\<close>: as on values, with a reference followed into the store. A reference
  past the end of the store denotes no object; no operation below creates one.
\<close>

fun store_read :: "store \<Rightarrow> val \<Rightarrow> seg \<Rightarrow> fault + val" where
  "store_read h VUndef seg = Inl TypeError"
| "store_read h VNull seg = Inl TypeError"
| "store_read h (VBool b) seg = val_found (seg_find inherited seg)"
| "store_read h (VNum n) seg = val_found (seg_find inherited seg)"
| "store_read h (VStr s) seg = val_found (seg_find (str_find s) seg)"
| "store_read h (VRef a) seg =
     (if a < length h then val_found (seg_find (cell_find (h ! a)) seg) else Inl Outside)"
| "store_read h VFun seg =
     (if seg = Key ''caller'' \<or> seg = Key ''arguments'' then Inl TypeError
      else if seg = Key ''constructor'' then Inr VFun
      else Inl Outside)"

text \<open>\<^verbatim>\<open>cursor[seg] = v\<close>: the cell that \<^verbatim>\<open>cursor\<close> refers to is replaced; no other cell changes.\<close>

fun store_write :: "store \<Rightarrow> val \<Rightarrow> seg \<Rightarrow> val \<Rightarrow> fault + store" where
  "store_write h (VRef a) seg v =
     (if a < length h \<and> decimal_seg seg
      then (case cell_assign (h ! a) (to_key seg) v of
              Inl e \<Rightarrow> Inl e
            | Inr c \<Rightarrow> Inr (h[a := c]))
      else Inl Outside)"
| "store_write h VFun seg v = Inl Outside"
| "store_write h _ seg v = Inl TypeError"

text \<open>The content of the new object that \<^verbatim>\<open>Array.isArray(x) ? [...x] : { ...x }\<close> creates.\<close>

fun copy_cell :: "store \<Rightarrow> val \<Rightarrow> cell" where
  "copy_cell h (VRef a) =
     (if a < length h
      then (case h ! a of CArr es ps \<Rightarrow> CArr es [] | CObj kvs \<Rightarrow> CObj kvs)
      else CObj [])"
| "copy_cell h (VStr s) = CObj (str_entries VStr s)"
| "copy_cell h _ = CObj []"

text \<open>The content of \<^verbatim>\<open>typeof nextSeg === "number" ? [] : {}\<close>.\<close>

fun fresh_cell :: "seg \<Rightarrow> cell" where
  "fresh_cell (Idx n) = CArr [] []"
| "fresh_cell (Key s) = CObj []"

text \<open>A new object lives in a new cell at the end of the store.\<close>

definition allocate :: "store \<Rightarrow> cell \<Rightarrow> store \<times> val" where
  "allocate h c = (h @ [c], VRef (length h))"

text \<open>\<^verbatim>\<open>getValueAtPath\<close>, which only reads.\<close>

fun store_get_loop :: "store \<Rightarrow> val \<Rightarrow> seg list \<Rightarrow> fault + val" where
  "store_get_loop h cursor [] = Inr cursor"
| "store_get_loop h cursor (seg # segs) =
     (if cursor = VUndef \<or> cursor = VNull then Inr VUndef
      else case store_read h cursor seg of
             Inl e \<Rightarrow> Inl e
           | Inr next \<Rightarrow> store_get_loop h next segs)"

definition store_getValueAtPath :: "store \<Rightarrow> val \<Rightarrow> path option \<Rightarrow> fault + val" where
  "store_getValueAtPath h rootv p =
     (case p of
        None \<Rightarrow> Inr rootv
      | Some segs \<Rightarrow> if segs = [] then Inr rootv else store_get_loop h rootv segs)"

text \<open>
  \<^verbatim>\<open>setValueAtPath\<close>: the copy of the root, then for every segment but the last the read of
  \<^verbatim>\<open>cursor[seg]\<close>, the new container or the copy, its assignment to \<^verbatim>\<open>cursor[seg]\<close> and the
  move of the cursor to \<^verbatim>\<open>cursor[seg]\<close>, and at the last segment the assignment of the
  value. The result is the final store and the reference to the copy of the root.
\<close>

fun store_set_loop :: "store \<Rightarrow> val \<Rightarrow> seg list \<Rightarrow> val \<Rightarrow> fault + store" where
  "store_set_loop h cursor [] v = Inr h"
| "store_set_loop h cursor [lastSeg] v = store_write h cursor lastSeg v"
| "store_set_loop h cursor (seg # nextSeg # rest) v =
     (case store_read h cursor seg of
        Inl e \<Rightarrow> Inl e
      | Inr cur \<Rightarrow>
          (case allocate h (if cur = VUndef \<or> cur = VNull then fresh_cell nextSeg else copy_cell h cur) of
             (h1, child) \<Rightarrow>
               (case store_write h1 cursor seg child of
                  Inl e \<Rightarrow> Inl e
                | Inr h2 \<Rightarrow>
                    (case store_read h2 cursor seg of
                       Inl e \<Rightarrow> Inl e
                     | Inr next \<Rightarrow> store_set_loop h2 next (nextSeg # rest) v))))"

definition store_setValueAtPath ::
  "store \<Rightarrow> val \<Rightarrow> path option \<Rightarrow> val \<Rightarrow> fault + store \<times> val" where
  "store_setValueAtPath h rootv p v =
     (case p of
        None \<Rightarrow> Inr (h, v)
      | Some segs \<Rightarrow>
          if segs = [] then Inr (h, v)
          else (case allocate h (copy_cell h rootv) of
                  (h1, rootClone) \<Rightarrow>
                    (case store_set_loop h1 rootClone segs v of
                       Inl e \<Rightarrow> Inl e
                     | Inr h' \<Rightarrow> Inr (h', rootClone))))"

text \<open>
  A store as \<^verbatim>\<open>JSON.parse\<close> builds it: every reference points into the store, no value is a
  function, and an array has no properties besides its elements.
\<close>

fun val_ok :: "nat \<Rightarrow> val \<Rightarrow> bool" where
  "val_ok n (VRef a) = (a < n)"
| "val_ok n VFun = False"
| "val_ok n _ = True"






section \<open>JSON text\<close>

text \<open>
  \<^verbatim>\<open>JSON.parse\<close> and \<^verbatim>\<open>JSON.stringify\<close> belong to the host and are parameters of
  \<^verbatim>\<open>handleSave\<close> and \<^verbatim>\<open>normalizeNodeData\<close> above. To run the helpers on concrete texts this
  section gives a reader and a writer for JSON text over 8-bit characters. A number
  literal is read as the rational it denotes; an escape \<^verbatim>\<open>\uXXXX\<close> is read when it denotes
  an 8-bit character. The reader threads the rest of the input through its calls and
  takes the number of nested calls it may make as its first argument; \<^verbatim>\<open>JSON_parse\<close> passes
  more than the length of the text.
\<close>

definition is_ws :: "char \<Rightarrow> bool" where
  "is_ws c = (c = CHR '' '' \<or> c = CHR 0x09 \<or> c = CHR 0x0A \<or> c = CHR 0x0D)"

definition skip_ws :: "string \<Rightarrow> string" where
  "skip_ws s = dropWhile is_ws s"

definition read_digits :: "string \<Rightarrow> string \<times> string" where
  "read_digits s = (takeWhile is_digit s, dropWhile is_digit s)"

definition read_int_part :: "string \<Rightarrow> (string \<times> string) option" where
  "read_int_part s =
     (case read_digits s of (ds, r) \<Rightarrow>
        if ds = [] then None
        else if hd ds = CHR ''0'' then Some (''0'', tl ds @ r)
        else Some (ds, r))"

text \<open>The digits of the fraction, without the point.\<close>

definition read_fraction :: "string \<Rightarrow> (string \<times> string) option" where
  "read_fraction s =
     (case s of
        c # r \<Rightarrow>
          if c = CHR ''.''
          then (case read_digits r of (ds, r') \<Rightarrow> if ds = [] then None else Some (ds, r'))
          else Some ([], s)
      | [] \<Rightarrow> Some ([], s))"

definition read_sign :: "string \<Rightarrow> bool \<times> string" where
  "read_sign s =
     (case s of
        c # r \<Rightarrow> if c = CHR ''-'' then (True, r) else if c = CHR ''+'' then (False, r) else (False, s)
      | [] \<Rightarrow> (False, s))"

text \<open>The exponent, \<open>0\<close> when there is none.\<close>

definition read_exponent :: "string \<Rightarrow> (int \<times> string) option" where
  "read_exponent s =
     (case s of
        c # r \<Rightarrow>
          if c = CHR ''e'' \<or> c = CHR ''E''
          then (case read_sign r of (neg, r1) \<Rightarrow>
                  (case read_digits r1 of (ds, r2) \<Rightarrow>
                     if ds = [] then None
                     else Some (if neg then - int (digits_val ds) else int (digits_val ds), r2)))
          else Some (0, s)
      | [] \<Rightarrow> Some (0, s))"

text \<open>The number \<open>m\<close> times ten to the power \<open>ex\<close>.\<close>

definition scaled :: "nat \<Rightarrow> int \<Rightarrow> rat" where
  "scaled m ex = (if 0 \<le> ex then of_nat m * 10 ^ nat ex else of_nat m / 10 ^ nat (- ex))"

definition read_number :: "string \<Rightarrow> (rat \<times> string) option" where
  "read_number s =
     (case (case s of c # r \<Rightarrow> if c = CHR ''-'' then (True, r) else (False, s) | [] \<Rightarrow> (False, s)) of
        (neg, r0) \<Rightarrow>
          (case read_int_part r0 of
             None \<Rightarrow> None
           | Some (ip, r1) \<Rightarrow>
               (case read_fraction r1 of
                  None \<Rightarrow> None
                | Some (fd, r2) \<Rightarrow>
                    (case read_exponent r2 of
                       None \<Rightarrow> None
                     | Some (ex, r3) \<Rightarrow>
                         Some ((if neg then - 1 else 1)
                                 * scaled (digits_val (ip @ fd)) (ex - int (length fd)), r3)))))"

definition hex_val :: "char \<Rightarrow> nat option" where
  "hex_val c =
     (if is_digit c then Some (digit_val c)
      else if c \<in> set ''abcdef'' then Some (of_char c - 87)
      else if c \<in> set ''ABCDEF'' then Some (of_char c - 55)
      else None)"

definition unescape :: "char \<Rightarrow> char option" where
  "unescape e =
     (if e = CHR 0x22 then Some (CHR 0x22)
      else if e = CHR 0x5C then Some (CHR 0x5C)
      else if e = CHR ''/'' then Some (CHR ''/'')
      else if e = CHR ''b'' then Some (CHR 0x08)
      else if e = CHR ''f'' then Some (CHR 0x0C)
      else if e = CHR ''n'' then Some (CHR 0x0A)
      else if e = CHR ''r'' then Some (CHR 0x0D)
      else if e = CHR ''t'' then Some (CHR 0x09)
      else None)"

definition read_hex4 :: "string \<Rightarrow> char option" where
  "read_hex4 s =
     (case map hex_val (take 4 s) of
        [Some a, Some b, Some c, Some d] \<Rightarrow>
          if a = 0 \<and> b = 0 then Some (char_of (16 * c + d)) else None
      | _ \<Rightarrow> None)"

fun read_string_body :: "string \<Rightarrow> (string \<times> string) option" where
  "read_string_body [] = None"
| "read_string_body (c # cs) =
     (if c = CHR 0x22 then Some ([], cs)
      else if c = CHR 0x5C then
        (case cs of
           [] \<Rightarrow> None
         | e # r \<Rightarrow>
             if e = CHR ''u'' then
               (case read_hex4 r of
                  None \<Rightarrow> None
                | Some ch \<Rightarrow>
                    (case read_string_body (drop 4 r) of
                       None \<Rightarrow> None
                     | Some (s, rest) \<Rightarrow> Some (ch # s, rest)))
             else
               (case unescape e of
                  None \<Rightarrow> None
                | Some ch \<Rightarrow>
                    (case read_string_body r of
                       None \<Rightarrow> None
                     | Some (s, rest) \<Rightarrow> Some (ch # s, rest))))
      else if (of_char c :: nat) < 32 then None
      else (case read_string_body cs of
              None \<Rightarrow> None
            | Some (s, rest) \<Rightarrow> Some (c # s, rest)))"

fun read_value :: "nat \<Rightarrow> string \<Rightarrow> (jv \<times> string) option"
  and read_elements :: "nat \<Rightarrow> jv list \<Rightarrow> string \<Rightarrow> (jv \<times> string) option"
  and read_members :: "nat \<Rightarrow> (string \<times> jv) list \<Rightarrow> string \<Rightarrow> (jv \<times> string) option"
  where
  "read_value 0 s = None"
| "read_value (Suc fuel) s =
     (case skip_ws s of
        [] \<Rightarrow> None
      | c # r \<Rightarrow>
          if c = CHR ''{'' then
            (case skip_ws r of
               [] \<Rightarrow> None
             | c' # r' \<Rightarrow> if c' = CHR ''}'' then Some (JObj [], r') else read_members fuel [] (c' # r'))
          else if c = CHR ''['' then
            (case skip_ws r of
               [] \<Rightarrow> None
             | c' # r' \<Rightarrow> if c' = CHR '']'' then Some (JArr [] [], r') else read_elements fuel [] (c' # r'))
          else if c = CHR 0x22 then
            (case read_string_body r of None \<Rightarrow> None | Some (str, r') \<Rightarrow> Some (JStr str, r'))
          else if take 4 (c # r) = ''true'' then Some (JBool True, drop 4 (c # r))
          else if take 5 (c # r) = ''false'' then Some (JBool False, drop 5 (c # r))
          else if take 4 (c # r) = ''null'' then Some (JNull, drop 4 (c # r))
          else (case read_number (c # r) of None \<Rightarrow> None | Some (n, r') \<Rightarrow> Some (JNum n, r')))"
| "read_elements 0 acc s = None"
| "read_elements (Suc fuel) acc s =
     (case read_value fuel s of
        None \<Rightarrow> None
      | Some (v, r) \<Rightarrow>
          (case skip_ws r of
             [] \<Rightarrow> None
           | c # r' \<Rightarrow>
               if c = CHR '','' then read_elements fuel (acc @ [v]) r'
               else if c = CHR '']'' then Some (JArr (acc @ [v]) [], r')
               else None))"
| "read_members 0 acc s = None"
| "read_members (Suc fuel) acc s =
     (case skip_ws s of
        [] \<Rightarrow> None
      | c # r \<Rightarrow>
          if c = CHR 0x22 then
            (case read_string_body r of
               None \<Rightarrow> None
             | Some (k, r1) \<Rightarrow>
                 (case skip_ws r1 of
                    [] \<Rightarrow> None
                  | c1 # r2 \<Rightarrow>
                      if c1 = CHR '':'' then
                        (case read_value fuel r2 of
                           None \<Rightarrow> None
                         | Some (v, r3) \<Rightarrow>
                             (case skip_ws r3 of
                                [] \<Rightarrow> None
                              | c3 # r4 \<Rightarrow>
                                  if c3 = CHR '','' then read_members fuel (obj_put k v acc) r4
                                  else if c3 = CHR ''}'' then Some (JObj (obj_put k v acc), r4)
                                  else None))
                      else None))
          else None)"

definition JSON_parse :: "string \<Rightarrow> jv option" where
  "JSON_parse s =
     (case read_value (Suc (length s)) s of
        None \<Rightarrow> None
      | Some (v, r) \<Rightarrow> if skip_ws r = [] then Some v else None)"

text \<open>
  How JavaScript writes a number, in a template literal and in \<^verbatim>\<open>JSON.stringify\<close>: with the
  decimal digits \<open>ds\<close> of the number, none of them a trailing zero, and the position \<open>n\<close> of
  the decimal point after the first of them, as an integer when \<open>n\<close> is at most 21, with a
  point inside or after a leading \<^verbatim>\<open>0.\<close> when \<open>n\<close> is above \<open>-6\<close>, and with an exponent
  otherwise. A rational that has no finite decimal expansion is no number of the host
  (every floating-point number has one); it is written \<^verbatim>\<open>null\<close>.
\<close>

function factor_count :: "int \<Rightarrow> int \<Rightarrow> nat" where
  "factor_count b q = (if 1 < b \<and> 0 < q \<and> q mod b = 0 then Suc (factor_count b (q div b)) else 0)"
  by pat_completeness auto
termination
  by (relation "measure (\<lambda>(b, q). nat q)") (auto simp: div_less_dividend pos_imp_zdiv_pos_iff zdiv_mono2 intro!: int_div_less_self)

declare factor_count.simps [simp del]

text \<open>
  The number of decimals of the fraction with denominator \<open>q\<close>, when it has finitely
  many: \<open>q\<close> is then a product of twos and fives.
\<close>

definition decimal_places :: "int \<Rightarrow> nat option" where
  "decimal_places q =
     (if q div (2 ^ factor_count 2 q) div (5 ^ factor_count 5 q) = 1
      then Some (max (factor_count 2 q) (factor_count 5 q))
      else None)"

definition strip_zeros :: "string \<Rightarrow> string" where
  "strip_zeros s = rev (dropWhile (\<lambda>c. c = CHR ''0'') (rev s))"

definition layout :: "string \<Rightarrow> int \<Rightarrow> string" where
  "layout ds n =
     (if int (length ds) \<le> n \<and> n \<le> 21 then ds @ replicate (nat (n - int (length ds))) (CHR ''0'')
      else if 0 < n \<and> n \<le> 21 then take (nat n) ds @ ''.'' @ drop (nat n) ds
      else if - 6 < n \<and> n \<le> 0 then ''0.'' @ replicate (nat (- n)) (CHR ''0'') @ ds
      else (if length ds = 1 then ds else [hd ds] @ ''.'' @ tl ds)
           @ ''e'' @ (if 0 \<le> n - 1 then ''+'' else ''-'') @ decimal (nat \<bar>n - 1\<bar>))"

definition num_text :: "rat \<Rightarrow> string" where
  "num_text x =
     (if x = 0 then ''0''
      else case decimal_places (snd (quotient_of x)) of
             None \<Rightarrow> ''null''
           | Some k \<Rightarrow>
               (if x < 0 then ''-'' else [])
               @ layout (strip_zeros (decimal (nat \<lfloor>\<bar>x\<bar> * 10 ^ k\<rfloor>)))
                   (int (length (decimal (nat \<lfloor>\<bar>x\<bar> * 10 ^ k\<rfloor>))) - int k))"

text \<open>
  The writer is \<^verbatim>\<open>JSON.stringify(v, null, 2)\<close>: two spaces of indentation per level, an
  element that is \<^verbatim>\<open>undefined\<close> or a function written as \<^verbatim>\<open>null\<close>, a property with such a
  value and the named properties of an array left out. (\<^verbatim>\<open>JSON.stringify\<close> of \<^verbatim>\<open>undefined\<close>
  or of a function is itself \<^verbatim>\<open>undefined\<close>, not a text; \<^verbatim>\<open>handleSave\<close> never passes them.)
\<close>

definition hex_char :: "nat \<Rightarrow> char" where
  "hex_char d = ''0123456789abcdef'' ! d"

definition quote_char :: "char \<Rightarrow> string" where
  "quote_char c =
     (if c = CHR 0x22 then [CHR 0x5C, CHR 0x22]
      else if c = CHR 0x5C then [CHR 0x5C, CHR 0x5C]
      else if c = CHR 0x08 then [CHR 0x5C, CHR ''b'']
      else if c = CHR 0x0C then [CHR 0x5C, CHR ''f'']
      else if c = CHR 0x0A then [CHR 0x5C, CHR ''n'']
      else if c = CHR 0x0D then [CHR 0x5C, CHR ''r'']
      else if c = CHR 0x09 then [CHR 0x5C, CHR ''t'']
      else if (of_char c :: nat) < 32
      then [CHR 0x5C, CHR ''u'', CHR ''0'', CHR ''0'', hex_char (of_char c div 16), hex_char (of_char c mod 16)]
      else [c])"

definition quote :: "string \<Rightarrow> string" where
  "quote s = [CHR 0x22] @ concat (map quote_char s) @ [CHR 0x22]"

definition indent :: "nat \<Rightarrow> string" where
  "indent level = replicate (2 * level) (CHR '' '')"

definition defined_properties :: "(string \<times> jv) list \<Rightarrow> (string \<times> jv) list" where
  "defined_properties kvs = filter (\<lambda>kv. snd kv \<noteq> JUndef \<and> snd kv \<noteq> JFun) kvs"

lemma size_property_less:
  "(k, v) \<in> set kvs \<Longrightarrow> size v < Suc (size_list (size_prod (\<lambda>x. 0) size) kvs)"
  by (induction kvs) auto

lemma size_element_less: "x \<in> set es \<Longrightarrow> size x < Suc (size_list size es + n)"
  by (induction es) auto

function (sequential) stringify_at :: "nat \<Rightarrow> jv \<Rightarrow> string" where
  "stringify_at level JUndef = ''null''"
| "stringify_at level JFun = ''null''"
| "stringify_at level JNull = ''null''"
| "stringify_at level (JBool b) = (if b then ''true'' else ''false'')"
| "stringify_at level (JNum n) = num_text n"
| "stringify_at level (JStr s) = quote s"
| "stringify_at level (JArr es ps) =
     (if es = [] then ''[]''
      else ''['' @ [CHR 0x0A]
           @ join_with ('','' @ [CHR 0x0A])
               (map (\<lambda>e. indent (Suc level) @ stringify_at (Suc level) e) es)
           @ [CHR 0x0A] @ indent level @ '']'')"
| "stringify_at level (JObj kvs) =
     (if defined_properties kvs = [] then ''{}''
      else ''{'' @ [CHR 0x0A]
           @ join_with ('','' @ [CHR 0x0A])
               (map (\<lambda>kv. indent (Suc level) @ quote (fst kv) @ '': '' @ stringify_at (Suc level) (snd kv))
                  (defined_properties kvs))
           @ [CHR 0x0A] @ indent level @ ''}'')"
  by pat_completeness auto
termination
  by (relation "measure (\<lambda>p. size (snd p))")
     (auto simp: defined_properties_def dest: size_property_less size_element_less)

definition JSON_stringify :: "jv \<Rightarrow> string" where
  "JSON_stringify v = stringify_at 0 v"

section \<open>Notions used in the statements\<close>

text \<open>The arrays and objects among the values.\<close>

fun is_container :: "jv \<Rightarrow> bool" where
  "is_container (JArr es ps) = True"
| "is_container (JObj kvs) = True"
| "is_container _ = False"

text \<open>
  The ordinary keys: every key but \<^verbatim>\<open>length\<close> and the names the built-in prototypes hold a
  property under. An ordinary segment is a string that is an ordinary key or a number
  below \<open>10^21\<close>; the decimal form of a number is an ordinary key.
\<close>

definition plain_key :: "string \<Rightarrow> bool" where
  "plain_key k = (k \<noteq> ''length'' \<and> k \<notin> set prototype_names)"

definition plain_seg :: "seg \<Rightarrow> bool" where
  "plain_seg seg = (decimal_seg seg \<and> plain_key (to_key seg))"

definition plain_path :: "path \<Rightarrow> bool" where
  "plain_path p = list_all plain_seg p"

text \<open>
  The values that \<^verbatim>\<open>JSON.parse\<close> returns: \<^verbatim>\<open>null\<close>, booleans, numbers, strings, arrays of such
  values without further properties, and objects that hold such values under keys that
  are all different.
\<close>

fun json_value :: "jv \<Rightarrow> bool" where
  "json_value JUndef = False"
| "json_value JFun = False"
| "json_value (JArr es ps) = (ps = [] \<and> list_all json_value es)"
| "json_value (JObj kvs) = (distinct (map fst kvs) \<and> list_all (\<lambda>kv. json_value (snd kv)) kvs)"
| "json_value _ = True"

text \<open>The rows for which the body of the \<^verbatim>\<open>forEach\<close> makes its assignment.\<close>

definition entry_row :: "NodeRow \<Rightarrow> bool" where
  "entry_row row = (\<not> falsy_key (row_key row) \<and> row_type row \<noteq> ''array'' \<and> row_type row \<noteq> ''object'')"

text \<open>
  The value \<open>new_root\<close> hands to \<^verbatim>\<open>setValueAtPath\<close>, given what \<^verbatim>\<open>getValueAtPath\<close> found at
  the node's path.
\<close>

definition written_value :: "NodeData \<Rightarrow> jv \<Rightarrow> jv \<Rightarrow> jv" where
  "written_value nd target parsed =
     (let rows = (case node_text nd of Some rows \<Rightarrow> rows | None \<Rightarrow> []) in
      if \<not> (length rows = 1 \<and> falsy_key (row_key (rows ! 0))) \<and> plain_object target \<and> plain_object parsed
      then JObj (overlay (own_properties target) (own_properties parsed))
      else parsed)"

text \<open>The segments of a path that may be \<^verbatim>\<open>undefined\<close>.\<close>

definition segments_of :: "path option \<Rightarrow> path" where
  "segments_of p = (case p of None \<Rightarrow> [] | Some segs \<Rightarrow> segs)"

text \<open>
  What \<^verbatim>\<open>getValueAtPath\<close> moves its cursor to from \<open>x\<close> under the key \<open>k\<close>: \<^verbatim>\<open>undefined\<close> when
  \<open>x\<close> is \<^verbatim>\<open>null\<close> or \<^verbatim>\<open>undefined\<close>, and the property otherwise.
\<close>

definition rd :: "store \<Rightarrow> val \<Rightarrow> string \<Rightarrow> val" where
  "rd h x k =
     (if x = VUndef \<or> x = VNull then VUndef
      else case store_read h x (Key k) of Inr y \<Rightarrow> y | Inl e \<Rightarrow> VUndef)"





text \<open>
  A value of the store represents a value of the first model when it is the same
  primitive, or a reference to a cell whose elements and properties represent, in order
  and under the same keys, those of the array or object.
\<close>

definition rel_entries :: "('a \<Rightarrow> 'b \<Rightarrow> bool) \<Rightarrow> (string \<times> 'a) list \<Rightarrow> (string \<times> 'b) list \<Rightarrow> bool" where
  "rel_entries R kvs tkvs = list_all2 (\<lambda>p q. fst p = fst q \<and> R (snd p) (snd q)) kvs tkvs"

fun cell_of :: "store \<Rightarrow> val \<Rightarrow> cell option" where
  "cell_of h (VRef a) = (if a < length h then Some (h ! a) else None)"
| "cell_of h _ = None"

function (sequential) represents :: "store \<Rightarrow> val \<Rightarrow> jv \<Rightarrow> bool" where
  "represents h v JUndef = (v = VUndef)"
| "represents h v JNull = (v = VNull)"
| "represents h v (JBool b) = (v = VBool b)"
| "represents h v (JNum n) = (v = VNum n)"
| "represents h v (JStr s) = (v = VStr s)"
| "represents h v JFun = (v = VFun)"
| "represents h v (JArr tes tps) =
     (case cell_of h v of
        Some (CArr es ps) \<Rightarrow>
          list_all2 (\<lambda>x t. represents h x t) es tes \<and>
          list_all2 (\<lambda>p q. fst p = fst q \<and> represents h (snd p) (snd q)) ps tps
      | _ \<Rightarrow> False)"
| "represents h v (JObj tkvs) =
     (case cell_of h v of
        Some (CObj kvs) \<Rightarrow> list_all2 (\<lambda>p q. fst p = fst q \<and> represents h (snd p) (snd q)) kvs tkvs
      | _ \<Rightarrow> False)"
  by pat_completeness auto
termination
  apply (relation "measure (\<lambda>(h, v, t). size t)")
  apply (auto dest: size_property_less size_element_less)
  done

fun cell_rel :: "(val \<Rightarrow> jv \<Rightarrow> bool) \<Rightarrow> cell \<Rightarrow> jv \<Rightarrow> bool" where
  "cell_rel R (CArr es ps) (JArr tes tps) = (list_all2 R es tes \<and> rel_entries R ps tps)"
| "cell_rel R (CObj kvs) (JObj tkvs) = rel_entries R kvs tkvs"
| "cell_rel R _ _ = False"

text \<open>
  The value that the specification reconstructs from a row sequence (its section 4.4 and
  the third invariant of its section 3): the empty object for no rows, the value of a
  single row that has no key, and otherwise the object keyed by the keys of the rows
  whose type is neither \<^verbatim>\<open>array\<close> nor \<^verbatim>\<open>object\<close>.
\<close>

definition spec_reconstructed_value :: "NodeRow list \<Rightarrow> jv" where
  "spec_reconstructed_value rows =
     (if rows = [] then JObj []
      else if length rows = 1 \<and> row_key (rows ! 0) = None then row_value (rows ! 0)
      else JObj (foldl (\<lambda>obj row. case row_key row of Some k \<Rightarrow> obj_put k (row_value row) obj | None \<Rightarrow> obj)
                  [] (filter (\<lambda>row. row_type row \<noteq> ''array'' \<and> row_type row \<noteq> ''object'') rows)))"

section \<open>Examples\<close>




text \<open>A single keyless row holding a string, and the rows of the node \<^verbatim>\<open>user\<close>.\<close>

definition ann_row :: "NodeRow list" where
  "ann_row = [\<lparr>row_key = None, row_value = JStr ''Ann'', row_type = ''string''\<rparr>]"

definition user_rows :: "NodeRow list" where
  "user_rows =
     [\<lparr>row_key = Some ''name'', row_value = JStr ''Ann'', row_type = ''string''\<rparr>,
      \<lparr>row_key = Some ''age'', row_value = JNum 30, row_type = ''number''\<rparr>]"

text \<open>
  The node of the string \<^verbatim>\<open>"Ann"\<close> in the document \<^verbatim>\<open>{"name": "Ann"}\<close>, opened and saved
  without a change: the edited text is the text that \<^verbatim>\<open>normalizeNodeData\<close> gave for the
  node.
\<close>

definition ann_node :: NodeData where
  "ann_node = \<lparr>node_text = Some ann_row, node_path = Some [Key ''name'']\<rparr>"

definition ann_unedited :: state where
  \<open>ann_unedited =
     \<lparr>json = ''{"name":"Ann"}'',
      selectedNode = Some ann_node,
      editedText = ''Ann'',
      isEditing = True, error = None, closed = False, timer = None\<rparr>\<close>

text \<open>Rows of which only the third has a key and a type that let it into the object.\<close>

definition mixed_rows :: "NodeRow list" where
  "mixed_rows =
     [\<lparr>row_key = None, row_value = JNum 1, row_type = ''number''\<rparr>,
      \<lparr>row_key = Some [], row_value = JBool True, row_type = ''boolean''\<rparr>,
      \<lparr>row_key = Some ''name'', row_value = JStr ''Ann'', row_type = ''string''\<rparr>,
      \<lparr>row_key = Some ''tags'', row_value = JNull, row_type = ''array''\<rparr>]"

text \<open>Rows of which the first is keyed \<^verbatim>\<open>__proto__\<close>.\<close>

definition proto_rows :: "NodeRow list" where
  "proto_rows =
     [\<lparr>row_key = Some ''__proto__'', row_value = JStr ''x'', row_type = ''string''\<rparr>,
      \<lparr>row_key = Some ''a'', row_value = JNum 1, row_type = ''number''\<rparr>]"





text \<open>An edit of a document whose text does not parse.\<close>

definition user_node :: NodeData where
  "user_node = \<lparr>node_text = Some [], node_path = Some [Key ''user'']\<rparr>"

definition corrupt_doc :: state where
  \<open>corrupt_doc =
     \<lparr>json = ''{"user": '',
      selectedNode = Some user_node,
      editedText = ''{"age":31}'',
      isEditing = True, error = None, closed = False, timer = None\<rparr>\<close>

text \<open>The same document, with a node whose path is \<^verbatim>\<open>["constructor", "caller"]\<close>.\<close>

definition caller_node :: NodeData where
  "caller_node = \<lparr>node_text = Some [], node_path = Some [Key ''constructor'', Key ''caller'']\<rparr>"

definition corrupt_doc_caller :: state where
  \<open>corrupt_doc_caller =
     \<lparr>json = ''{"user": '',
      selectedNode = Some caller_node,
      editedText = ''1'',
      isEditing = True, error = None, closed = False, timer = None\<rparr>\<close>


text \<open>The state of the malformed edit of the specification's property P6.\<close>

definition bad_edit :: state where
  "bad_edit =
     \<lparr>json = ''{}'', selectedNode = Some \<lparr>node_text = Some [], node_path = Some []\<rparr>,
      editedText = ''{bad json'', isEditing = True, error = None, closed = False, timer = None\<rparr>"

section \<open>Keys and own properties\<close>

lemma digit_char_is_digit: "d < 10 \<Longrightarrow> is_digit (digit_char d)"
proof -
  assume "d < 10"
  then have "d \<in> {0,1,2,3,4,5,6,7,8,9}" by auto
  then show ?thesis by (auto simp: is_digit_def digit_char_def)
qed

lemma digit_val_digit_char: "d < 10 \<Longrightarrow> digit_val (digit_char d) = d"
proof -
  assume "d < 10"
  then have "d \<in> {0,1,2,3,4,5,6,7,8,9}" by auto
  then show ?thesis by (auto simp: digit_val_def digit_char_def)
qed

lemma decimal_nonempty: "decimal n \<noteq> []"
  by (subst decimal.simps) simp

lemma decimal_digits: "list_all is_digit (decimal n)"
proof (induction n rule: decimal.induct)
  case (1 n)
  show ?case
  proof (cases "n < 10")
    case True
    then show ?thesis by (subst decimal.simps) (simp add: digit_char_is_digit)
  next
    case False
    with 1 show ?thesis by (subst decimal.simps) (simp add: digit_char_is_digit)
  qed
qed

lemma digits_val_snoc: "digits_val (s @ [c]) = 10 * digits_val s + digit_val c"
  by (simp add: digits_val_def)

lemma digits_val_decimal: "digits_val (decimal n) = n"
proof (induction n rule: decimal.induct)
  case (1 n)
  show ?case
  proof (cases "n < 10")
    case True
    then show ?thesis
      by (subst decimal.simps) (simp add: digits_val_def digit_val_digit_char)
  next
    case False
    with 1 have "digits_val (decimal (n div 10)) = n div 10" by simp
    with False show ?thesis
      by (subst decimal.simps) (simp add: digits_val_snoc digit_val_digit_char)
  qed
qed


lemma canonical_index_decimal_eq: "canonical_index (decimal n) = Some n"
  by (simp add: canonical_index_def decimal_nonempty decimal_digits digits_val_decimal)

lemma array_index_decimal_eq: "int n < 4294967295 \<Longrightarrow> array_index (decimal n) = Some n"
  by (simp add: array_index_def canonical_index_decimal_eq)

lemma canonical_index_decimal: "canonical_index k = Some i \<Longrightarrow> k = decimal i"
  by (simp add: canonical_index_def split: if_splits)

lemma array_index_decimal: "array_index k = Some i \<Longrightarrow> k = decimal i"
  by (simp add: array_index_def canonical_index_decimal split: option.splits if_splits)

lemma array_index_inj: "array_index k = Some i \<Longrightarrow> array_index k' = Some i \<Longrightarrow> k = k'"
  using array_index_decimal by blast

text \<open>No special name is written with digits only, so the key of a number is ordinary.\<close>

lemma special_names_not_digits:
  "k = ''length'' \<or> k \<in> set prototype_names \<Longrightarrow> \<not> list_all is_digit k"
  by (auto simp: prototype_names_def is_digit_def)

lemma plain_key_decimal: "plain_key (decimal n)"
  using special_names_not_digits [of "decimal n"] decimal_digits [of n]
  by (auto simp: plain_key_def)

lemma plain_seg_Idx: "plain_seg (Idx n) \<longleftrightarrow> int n < 1000000000000000000000"
  by (simp add: plain_seg_def plain_key_decimal)

lemma plain_key_inherited: "plain_key k \<Longrightarrow> inherited k = Absent"
  by (auto simp: plain_key_def inherited_def prototype_names_def)

lemma plain_key_not_proto: "plain_key k \<Longrightarrow> k \<noteq> ''__proto__''"
  by (auto simp: plain_key_def prototype_names_def)

lemma array_index_not_length: "array_index ''length'' = None"
  by (simp add: array_index_def canonical_index_def is_digit_def)

lemma map_of_insert_index:
  "k \<notin> fst ` set kvs \<Longrightarrow> map_of (insert_index i (k, v) kvs) k' = (if k' = k then Some v else map_of kvs k')"
  by (induction kvs) (auto split: option.splits)

lemma map_of_obj_put: "map_of (obj_put k v kvs) k' = (if k' = k then Some v else map_of kvs k')"
proof (cases "k \<in> fst ` set kvs")
  case True
  then show ?thesis by (simp add: obj_put_def update_conv')
next
  case False
  then have "map_of kvs k = None" by (simp add: map_of_eq_None_iff)
  with False show ?thesis
    by (simp add: obj_put_def map_of_insert_index map_add_def split: option.splits)
qed

lemma obj_find_put: "obj_find (obj_put k v kvs) k' = (if k' = k then Own v else obj_find kvs k')"
  by (simp add: obj_find_def map_of_obj_put)

lemma obj_assign_plain: "plain_key k \<Longrightarrow> obj_assign kvs k v ign = Inr (obj_put k v kvs)"
  by (simp add: obj_assign_def plain_key_not_proto)

lemma arr_assign_plain:
  "plain_key k \<Longrightarrow>
   arr_assign u es ps k v len ign =
     Inr (case array_index k of
            Some i \<Rightarrow> (if i < length es then es[i := v] else es @ replicate (i - length es) u @ [v], ps)
          | None \<Rightarrow> (es, obj_put k v ps))"
  by (auto simp: arr_assign_def obj_assign_plain plain_key_def split: option.splits)

lemma arr_find_assign:
  assumes "plain_key k" and "arr_assign u es ps k v len ign = Inr (es', ps')" and "k' \<noteq> ''length''"
  shows "arr_find es' ps' k' =
           (if k' = k then Own v
            else if arr_find es ps k' = Absent \<and> (\<exists>i. array_index k' = Some i \<and> i < length es')
            then Own u else arr_find es ps k')"
proof (cases "array_index k")
  case None
  with assms(1,2) have e: "es' = es" "ps' = obj_put k v ps"
    by (auto simp: arr_assign_plain)
  show ?thesis
    using None assms(3) by (cases "array_index k'") (auto simp: arr_find_def e obj_find_put)
next
  case (Some i)
  with assms(1,2) have es': "es' = (if i < length es then es[i := v] else es @ replicate (i - length es) u @ [v])"
    and ps': "ps' = ps"
    by (auto simp: arr_assign_plain)
  show ?thesis
  proof (cases "array_index k'")
    case None
    with Some assms(3) show ?thesis by (auto simp: arr_find_def ps')
  next
    case (Some j)
    have kk: "k' = k \<longleftrightarrow> j = i"
      using Some \<open>array_index k = Some i\<close> array_index_inj by auto
    show ?thesis
      using Some by (auto simp: arr_find_def es' ps' kk nth_append nth_list_update)
  qed
qed

section \<open>Reading and writing under ordinary keys\<close>

lemma shallow_copy_container: "is_container (shallow_copy x)"
  by (cases x) simp_all

lemma fresh_container_container: "is_container (fresh_container s)"
  by (cases s) simp_all


lemma prop_write_kind:
  "prop_write c s v = Inr c' \<Longrightarrow>
   (\<exists>es ps es' ps'. c = JArr es ps \<and> c' = JArr es' ps') \<or> (\<exists>kvs kvs'. c = JObj kvs \<and> c' = JObj kvs')"
  by (cases c) (auto split: if_splits sum.splits)

lemma prop_write_container: "prop_write c s v = Inr c' \<Longrightarrow> is_container c'"
  using prop_write_kind by fastforce

lemma prop_write_plain:
  "is_container c \<Longrightarrow> plain_seg s \<Longrightarrow> \<exists>c'. prop_write c s v = Inr c'"
  by (cases c) (auto simp: plain_seg_def arr_assign_plain obj_assign_plain split: option.splits)

lemma prop_read_plain:
  "is_container c \<Longrightarrow> plain_seg s \<Longrightarrow> \<exists>x. prop_read c s = Inr x"
  by (cases c)
     (auto simp: plain_seg_def seg_find_def arr_find_def obj_find_def plain_key_inherited plain_key_def
           split: option.splits)

lemma prop_read_write:
  assumes "prop_write c s v = Inr c'" and "plain_seg s" and "decimal_seg s'" and "to_key s' \<noteq> ''length''"
  shows "prop_read c' s' = (if to_key s' = to_key s then Inr v else prop_read c s')"
proof (cases c)
  case (JArr es ps)
  from assms(2) have d: "decimal_seg s" and k: "plain_key (to_key s)" by (simp_all add: plain_seg_def)
  from assms(1) JArr d obtain es' ps' where
    a: "arr_assign JUndef es ps (to_key s) v (length_value v) (setter_ignores v) = Inr (es', ps')"
    and c': "c' = JArr es' ps'"
    by (auto split: sum.splits)
  show ?thesis
    using arr_find_assign [OF k a assms(4)] assms(3)
    by (auto simp: JArr c' seg_find_def)
next
  case (JObj kvs)
  from assms(2) have d: "decimal_seg s" and k: "plain_key (to_key s)" by (simp_all add: plain_seg_def)
  from assms(1) JObj d have c': "c' = JObj (obj_put (to_key s) v kvs)"
    by (auto simp: obj_assign_plain [OF k])
  show ?thesis
    using assms(3) by (simp add: JObj c' seg_find_def obj_find_put)
qed (use assms(1) in simp_all)

lemma plain_seg_decimal: "plain_seg s \<Longrightarrow> decimal_seg s \<and> to_key s \<noteq> ''length''"
  by (auto simp: plain_seg_def plain_key_def)

lemma prop_read_written:
  "prop_write c s v = Inr c' \<Longrightarrow> plain_seg s \<Longrightarrow> prop_read c' s = Inr v"
  using prop_read_write [of c s v c' s] plain_seg_decimal by simp

lemma set_loop_returns:
  "is_container c \<Longrightarrow> plain_path p \<Longrightarrow> \<exists>r. set_loop c p v = Inr r \<and> is_container r"
proof (induction c p v rule: set_loop.induct)
  case (1 cursor v)
  then show ?case by simp
next
  case (2 cursor lastSeg v)
  then have "plain_seg lastSeg" by (simp add: plain_path_def)
  from prop_write_plain [OF "2.prems"(1) this, of v] show ?case
    by (auto dest: prop_write_container)
next
  case (3 cursor seg nextSeg rest v)
  from "3.prems"(2) have ps: "plain_seg seg" and pr: "plain_path (nextSeg # rest)"
    by (simp_all add: plain_path_def)
  obtain cur where cur: "prop_read cursor seg = Inr cur"
    using prop_read_plain [OF "3.prems"(1) ps] by blast
  define child where "child = (if cur = JUndef \<or> cur = JNull then fresh_container nextSeg else shallow_copy cur)"
  have child: "is_container child"
    by (simp add: child_def shallow_copy_container fresh_container_container)
  obtain cursor1 where c1: "prop_write cursor seg child = Inr cursor1"
    using prop_write_plain [OF "3.prems"(1) ps] by blast
  have c1c: "is_container cursor1" using prop_write_container [OF c1] .
  have rd: "prop_read cursor1 seg = Inr child"
    using prop_read_written [OF c1 ps] .
  obtain next' where n': "set_loop child (nextSeg # rest) v = Inr next'" "is_container next'"
    using "3.IH" [OF cur c1 [unfolded child_def] rd [unfolded child_def] _ pr] child
    by (auto simp: child_def)
  obtain r where r: "prop_write cursor1 seg next' = Inr r"
    using prop_write_plain [OF c1c ps] by blast
  show ?case
    using cur c1 rd n' r prop_write_container [OF r] by (simp add: child_def)
qed


lemma setValueAtPath_returns:
  "plain_path (segments_of p) \<Longrightarrow> \<exists>r. setValueAtPath rootv p v = Inr r"
proof (cases p)
  case None
  then show ?thesis by (simp add: setValueAtPath_def)
next
  case (Some segs)
  assume "plain_path (segments_of p)"
  with Some have "plain_path segs" by (simp add: segments_of_def)
  then obtain r where "set_loop (shallow_copy rootv) segs v = Inr r"
    using set_loop_returns [OF shallow_copy_container] by blast
  with Some show ?thesis by (simp add: setValueAtPath_def)
qed


text \<open>Reading a document that \<^verbatim>\<open>JSON.parse\<close> returned, along ordinary keys.\<close>

lemma json_value_element: "list_all json_value es \<Longrightarrow> i < length es \<Longrightarrow> json_value (es ! i)"
  by (simp add: list_all_length)

lemma json_value_property:
  "list_all (\<lambda>kv. json_value (snd kv)) kvs \<Longrightarrow> map_of kvs k = Some v \<Longrightarrow> json_value v"
  by (auto simp: list_all_iff dest!: map_of_SomeD)

lemma prop_read_json:
  assumes "json_value c" and "plain_seg s" and "\<not> nullish c"
  shows "\<exists>x. prop_read c s = Inr x \<and> (x = JUndef \<or> json_value x)"
proof -
  from assms(2) have d: "decimal_seg s" and k: "plain_key (to_key s)" by (simp_all add: plain_seg_def)
  then have l: "to_key s \<noteq> ''length''" by (simp add: plain_key_def)
  have a: "inherited (to_key s) = (Absent :: jv found)" using plain_key_inherited [OF k] .
  show ?thesis
    using assms(1,3) d l a
    by (cases c)
       (auto simp: nullish_def seg_find_def str_find_def arr_find_def obj_find_def
             json_value_element json_value_property split: option.splits)
qed

lemma get_loop_json:
  "json_value c \<or> c = JUndef \<Longrightarrow> plain_path p \<Longrightarrow> \<exists>x. get_loop c p = Inr x \<and> (x = JUndef \<or> json_value x)"
proof (induction p arbitrary: c)
  case Nil
  then show ?case by auto
next
  case (Cons s p)
  show ?case
  proof (cases "nullish c")
    case True
    then show ?thesis by simp
  next
    case False
    with Cons.prems have j: "json_value c" by (auto simp: nullish_def)
    from Cons.prems have ps: "plain_seg s" and pp: "plain_path p" by (simp_all add: plain_path_def)
    from prop_read_json [OF j ps False] obtain y where
      y: "prop_read c s = Inr y" "y = JUndef \<or> json_value y" by blast
    from Cons.IH [of y] y pp False show ?thesis by auto
  qed
qed

lemma getValueAtPath_json:
  "json_value rootv \<Longrightarrow> plain_path (segments_of p) \<Longrightarrow>
   \<exists>x. getValueAtPath rootv p = Inr x \<and> (x = JUndef \<or> json_value x)"
  using get_loop_json [of rootv "segments_of p"]
  by (cases p) (auto simp: getValueAtPath_def segments_of_def)

lemma handleSave_saved:
  assumes "parse (editedText st) = Some parsed" and "selectedNode st = Some nd"
    and "new_root (case parse (json st) of Some r \<Rightarrow> r | None \<Rightarrow> JObj []) nd parsed = Inr newRoot"
  shows "handleSave parse stringify st =
           Some (st\<lparr>error := None, json := stringify newRoot, timer := Some (node_path nd),
                    isEditing := False, closed := True\<rparr>)"
  using assms by (simp add: handleSave_def try_save_def Let_def)

lemma handleSave_thrown:
  assumes "parse (editedText st) = Some parsed" and "selectedNode st = Some nd"
    and "new_root (case parse (json st) of Some r \<Rightarrow> r | None \<Rightarrow> JObj []) nd parsed = Inl e"
  shows "handleSave parse stringify st =
           (if e = Outside then None else Some (st\<lparr>error := Some invalid_json_message\<rparr>))"
  using assms by (simp add: handleSave_def try_save_def Let_def)



lemma new_root_eq:
  assumes "getValueAtPath rootObj (node_path nd) = Inr target"
  shows "new_root rootObj nd parsed = setValueAtPath rootObj (node_path nd) (written_value nd target parsed)"
  using assms by (auto simp: new_root_def written_value_def Let_def)

lemma new_root_returns:
  assumes "json_value rootObj" and "plain_path (segments_of (node_path nd))"
  shows "\<exists>r. new_root rootObj nd parsed = Inr r"
proof -
  obtain target where "getValueAtPath rootObj (node_path nd) = Inr target"
    using getValueAtPath_json [OF assms] by blast
  from new_root_eq [OF this] setValueAtPath_returns [OF assms(2)] show ?thesis by metis
qed

section \<open>Claims about setValueAtPath and getValueAtPath on values\<close>




text \<open>
  Claim C7: with the empty path (or no path) \<^verbatim>\<open>setValueAtPath\<close> returns the value it was
  given, whatever the root; on the store it returns that very value and allocates
  nothing.
\<close>

theorem root_replace:
  "setValueAtPath rootv (Some []) v = Inr v \<and>
   setValueAtPath rootv None v = Inr v \<and>
   store_setValueAtPath h r (Some []) w = Inr (h, w) \<and>
   store_setValueAtPath h r None w = Inr (h, w)"
  by (simp add: setValueAtPath_def store_setValueAtPath_def)

lemma array_index_0: "array_index ''0'' = Some 0"
  by code_simp

lemma array_index_a: "array_index ''a'' = None"
  by code_simp

lemma decimal_0: "decimal 0 = ''0''"
  by code_simp

text \<open>
  Whatever the first segment is, a root that is not an array is copied into an object,
  and the result is that object; for a path of ordinary keys there is a result.
\<close>

lemma set_loop_object:
  "set_loop (JObj kvs) segs v = Inr r \<Longrightarrow> \<exists>kvs'. r = JObj kvs'"
proof (cases segs)
  case Nil
  assume "set_loop (JObj kvs) segs v = Inr r"
  with Nil show ?thesis by auto
next
  case (Cons seg rest)
  assume a: "set_loop (JObj kvs) segs v = Inr r"
  show ?thesis
  proof (cases rest)
    case Nil
    with Cons a have "prop_write (JObj kvs) seg v = Inr r" by simp
    from prop_write_kind [OF this] show ?thesis by auto
  next
    case (Cons nextSeg rest')
    with \<open>segs = seg # rest\<close> a obtain x c1 n' where "prop_write (JObj kvs) seg x = Inr c1"
      and "prop_write c1 seg n' = Inr r"
      by (auto simp del: prop_write.simps prop_read.simps split: sum.splits)
    then show ?thesis
      using prop_write_kind [of c1 seg n' r] prop_write_kind [of "JObj kvs" seg x c1] by auto
  qed
qed

lemma non_array_root_becomes_object:
  assumes "\<forall>es ps. rootv \<noteq> JArr es ps" and "segs \<noteq> []"
  shows "(\<forall>r. setValueAtPath rootv (Some segs) v = Inr r \<longrightarrow> (\<exists>kvs. r = JObj kvs)) \<and>
         (plain_path segs \<longrightarrow> (\<exists>kvs. setValueAtPath rootv (Some segs) v = Inr (JObj kvs)))"
proof -
  obtain kvs0 where c: "shallow_copy rootv = JObj kvs0"
    using assms(1) by (cases rootv) auto
  have a: "\<exists>kvs. r = JObj kvs" if "setValueAtPath rootv (Some segs) v = Inr r" for r
    using that assms(2) c set_loop_object [of kvs0 segs v r] by (simp add: setValueAtPath_def)
  have "\<exists>kvs. setValueAtPath rootv (Some segs) v = Inr (JObj kvs)" if "plain_path segs"
  proof -
    from setValueAtPath_returns [of "Some segs" rootv v] that obtain r where
      r: "setValueAtPath rootv (Some segs) v = Inr r" by (auto simp: segments_of_def)
    with a [OF r] show ?thesis by auto
  qed
  with a show ?thesis by blast
qed

text \<open>
  Claim C4: a root that is not a container does not make \<^verbatim>\<open>setValueAtPath\<close> fail, and with
  a string as first segment the root becomes an object. With a number as first segment
  the root becomes an object too, with the number's digits as key, and not an array:
  the copy of the root is \<^verbatim>\<open>{ ...root }\<close> whatever the first segment is, while a missing
  container further down is an array when the segment after it is a number.
\<close>

theorem null_root_numeric_segment:
  "setValueAtPath JNull (Some [Idx 0]) v = Inr (JObj [(''0'', v)]) \<and>
   setValueAtPath JNull (Some [Key ''a'']) v = Inr (JObj [(''a'', v)]) \<and>
   setValueAtPath (JObj [(''a'', JNull)]) (Some [Key ''a'', Idx 0]) v = Inr (JObj [(''a'', JArr [v] [])])"
  by (simp add: setValueAtPath_def obj_assign_def obj_put_def obj_find_def arr_assign_def seg_find_def
      array_index_0 array_index_a decimal_0)

section \<open>Path equality\<close>

lemma every_segment_equal_iff:
  "length a = length b \<Longrightarrow> every_segment_equal a b \<longleftrightarrow> (\<forall>i<length a. a ! i = b ! i)"
  by (auto simp: every_segment_equal_def at_index_def list_all_iff)

lemma pathEquals_Some:
  "pathEquals (Some xs) (Some ys) \<longleftrightarrow> length xs = length ys \<and> (\<forall>i<length xs. xs ! i = ys ! i)"
  by (auto simp: pathEquals_def every_segment_equal_iff)

lemma pathEquals_iff: "pathEquals a b \<longleftrightarrow> a = b"
proof (cases a; cases b)
  fix xs ys assume "a = Some xs" "b = Some ys"
  then show ?thesis by (auto simp: pathEquals_Some list_eq_iff_nth_eq)
qed (simp_all add: pathEquals_def)

text \<open>
  Claim C8: \<^verbatim>\<open>pathEquals\<close> is reflexive, symmetric and transitive; two paths are equal
  exactly when they have the same length and the same segment at every position; a
  number and the string of its digits are different segments, and paths of different
  lengths are different.
\<close>

theorem path_equality:
  "pathEquals a a \<and>
   (pathEquals a b \<longrightarrow> pathEquals b a) \<and>
   (pathEquals a b \<and> pathEquals b c \<longrightarrow> pathEquals a c) \<and>
   (pathEquals (Some xs) (Some ys) \<longleftrightarrow>
      length xs = length ys \<and> (\<forall>i<length xs. xs ! i = ys ! i)) \<and>
   \<not> pathEquals (Some [Idx 0]) (Some [Key ''0'']) \<and>
   \<not> pathEquals (Some [Key ''a'']) (Some [Key ''a'', Idx 0])"
  using pathEquals_Some [of xs ys] by (simp add: pathEquals_iff)

theorem path_equality_witness:
  "pathEquals (Some [Key ''a'', Idx 0]) (Some [Key ''a'', Idx 0]) \<and>
   pathEquals None None \<and>
   length [Key ''a'', Idx 0] = length [Key ''a'', Idx 0] \<and>
   \<not> pathEquals (Some [Idx 0]) (Some [Key ''0'']) \<and>
   \<not> pathEquals (Some [Key ''a'']) (Some [Key ''a'', Idx 0]) \<and>
   \<not> pathEquals None (Some [])"
  using path_equality [of "Some [Key ''a'', Idx 0]" "Some [Key ''a'', Idx 0]" "Some [Key ''a'', Idx 0]"
      "[Key ''a'', Idx 0]" "[Key ''a'', Idx 0]"]
    path_equality [of None None None "[]" "[]"]
  by (simp add: pathEquals_def)

section \<open>The rows of normalizeNodeData\<close>

lemma add_row_skip: "\<not> entry_row row \<Longrightarrow> add_row obj row = Inr obj"
  by (auto simp: add_row_def entry_row_def)

lemma add_row_entry:
  "entry_row row \<Longrightarrow>
   add_row obj row = obj_assign obj (the (row_key row)) (row_value row) (setter_ignores (row_value row))"
  by (auto simp: add_row_def entry_row_def)

lemma add_rows_filter: "add_rows obj (filter entry_row rows) = add_rows obj rows"
  by (induction rows arbitrary: obj) (auto simp: add_row_skip split: sum.splits)

lemma set_update_subset: "set (AList.update k v al) \<subseteq> insert (k, v) (set al)"
  by (induction al) auto

lemma set_insert_index: "set (insert_index i e kvs) = insert e (set kvs)"
  by (induction kvs) (auto split: option.splits)

lemma set_obj_put_subset: "set (obj_put k v kvs) \<subseteq> insert (k, v) (set kvs)"
  using set_update_subset [of k v kvs]
  by (auto simp: obj_put_def set_insert_index split: option.splits)

lemma set_obj_assign_subset: "obj_assign kvs k v ign = Inr kvs' \<Longrightarrow> set kvs' \<subseteq> insert (k, v) (set kvs)"
  using set_obj_put_subset [of k v kvs] by (auto simp: obj_assign_def split: if_splits)

lemma entries_add_rows:
  "add_rows obj rows = Inr obj' \<Longrightarrow> e \<in> set obj' \<Longrightarrow>
   e \<in> set obj \<or> (\<exists>r\<in>set rows. entry_row r \<and> row_key r = Some (fst e) \<and> row_value r = snd e)"
proof (induction rows arbitrary: obj)
  case Nil
  then show ?case by simp
next
  case (Cons r rows)
  from Cons.prems(1) obtain obj1 where o1: "add_row obj r = Inr obj1" and rest: "add_rows obj1 rows = Inr obj'"
    by (auto split: sum.splits)
  from Cons.IH [OF rest Cons.prems(2)]
  consider "e \<in> set obj1"
    | "\<exists>r\<in>set rows. entry_row r \<and> row_key r = Some (fst e) \<and> row_value r = snd e"
    by blast
  then show ?case
  proof cases
    case 1
    show ?thesis
    proof (cases "entry_row r")
      case True
      then obtain k where k: "row_key r = Some k" by (auto simp: entry_row_def falsy_key_def)
      with 1 True o1 have "e \<in> insert (k, row_value r) (set obj)"
        using set_obj_assign_subset [of obj k "row_value r" _ obj1] by (auto simp: add_row_entry)
      with True k show ?thesis by auto
    next
      case False
      with 1 o1 show ?thesis by (simp add: add_row_skip)
    qed
  next
    case 2
    then show ?thesis by auto
  qed
qed

lemma add_rows_returns:
  "\<forall>r\<in>set rows. entry_row r \<longrightarrow> row_key r \<noteq> Some ''__proto__'' \<Longrightarrow> \<exists>obj'. add_rows obj rows = Inr obj'"
proof (induction rows arbitrary: obj)
  case Nil
  then show ?case by simp
next
  case (Cons r rows)
  have "\<exists>obj1. add_row obj r = Inr obj1"
  proof (cases "entry_row r")
    case True
    with Cons.prems have "the (row_key r) \<noteq> ''__proto__''"
      by (auto simp: entry_row_def falsy_key_def)
    with True show ?thesis by (simp add: add_row_entry obj_assign_def)
  next
    case False
    then show ?thesis by (simp add: add_row_skip)
  qed
  then obtain obj1 where "add_row obj r = Inr obj1" by blast
  with Cons.IH [of obj1] Cons.prems show ?case by auto
qed

text \<open>
  A row keyed \<^verbatim>\<open>__proto__\<close> with a string for value leaves no property: the assignment goes
  to the setter of \<^verbatim>\<open>Object.prototype\<close>, which ignores the string.
\<close>

lemma proto_row_dropped: "row_object proto_rows = Inr [(''a'', JNum 1)]"
  by code_simp

text \<open>
  Claim C10: in the object that \<^verbatim>\<open>normalizeNodeData\<close> builds, a row whose key is missing or
  empty, or whose type is \<^verbatim>\<open>array\<close> or \<^verbatim>\<open>object\<close>, contributes nothing: leaving such rows
  out gives the same object, and every property of the object is the key and the value
  of a row that has a non-empty key and another type. The object is built whenever no
  such row is keyed \<^verbatim>\<open>__proto__\<close>, and it is what is serialised unless the rows are empty
  or a single keyless row.
\<close>

theorem keyless_rows_contribute_nothing:
  "row_object (filter entry_row rows) = row_object rows \<and>
   (\<forall>obj. row_object rows = Inr obj \<longrightarrow>
      (\<forall>e\<in>set obj. \<exists>r\<in>set rows. entry_row r \<and> row_key r = Some (fst e) \<and> row_value r = snd e)) \<and>
   ((\<forall>r\<in>set rows. entry_row r \<longrightarrow> row_key r \<noteq> Some ''__proto__'') \<longrightarrow>
      (\<exists>obj. row_object rows = Inr obj)) \<and>
   (rows \<noteq> [] \<and> \<not> (length rows = 1 \<and> falsy_key (row_key (rows ! 0))) \<longrightarrow>
      normalizeNodeData stringify num_str (Some rows) =
        (case row_object rows of Inl e \<Rightarrow> Inl e | Inr obj \<Rightarrow> Inr (stringify (JObj obj))))"
proof -
  have "\<forall>e\<in>set obj. \<exists>r\<in>set rows. entry_row r \<and> row_key r = Some (fst e) \<and> row_value r = snd e"
    if "row_object rows = Inr obj" for obj
    using that entries_add_rows [of "[]" rows obj] by (auto simp: row_object_def)
  moreover have "\<exists>obj. row_object rows = Inr obj"
    if "\<forall>r\<in>set rows. entry_row r \<longrightarrow> row_key r \<noteq> Some ''__proto__''"
    using add_rows_returns [OF that] by (simp add: row_object_def)
  ultimately show ?thesis
    by (auto simp: row_object_def add_rows_filter normalizeNodeData_def)
qed

theorem keyless_rows_contribute_nothing_witness:
  "mixed_rows \<noteq> [] \<and> \<not> (length mixed_rows = 1 \<and> falsy_key (row_key (mixed_rows ! 0))) \<and>
   row_object mixed_rows = Inr [(''name'', JStr ''Ann'')] \<and>
   filter entry_row mixed_rows = [\<lparr>row_key = Some ''name'', row_value = JStr ''Ann'', row_type = ''string''\<rparr>] \<and>
   normalizeNodeData JSON_stringify num_text (Some mixed_rows) =
     Inr (JSON_stringify (JObj [(''name'', JStr ''Ann'')]))"
proof -
  have a: "mixed_rows \<noteq> [] \<and> \<not> (length mixed_rows = 1 \<and> falsy_key (row_key (mixed_rows ! 0)))"
    by (simp add: mixed_rows_def)
  have f: "filter entry_row mixed_rows = [\<lparr>row_key = Some ''name'', row_value = JStr ''Ann'', row_type = ''string''\<rparr>]"
    by (simp add: mixed_rows_def entry_row_def falsy_key_def)
  have o: "row_object [\<lparr>row_key = Some ''name'', row_value = JStr ''Ann'', row_type = ''string''\<rparr>]
             = Inr [(''name'', JStr ''Ann'')]"
    by code_simp
  note t = keyless_rows_contribute_nothing [of mixed_rows JSON_stringify num_text]
  from t have "row_object (filter entry_row mixed_rows) = row_object mixed_rows" by blast
  with f o have ro: "row_object mixed_rows = Inr [(''name'', JStr ''Ann'')]" by simp
  from t a have "normalizeNodeData JSON_stringify num_text (Some mixed_rows) =
        (case row_object mixed_rows of Inl e \<Rightarrow> Inl e | Inr obj \<Rightarrow> Inr (JSON_stringify (JObj obj)))"
    by blast
  with ro a f show ?thesis by simp
qed

text \<open>
  Claim C6 at a single keyless row that holds the string \<^verbatim>\<open>Ann\<close>: the value reconstructed
  from the rows is that string, but \<^verbatim>\<open>normalizeNodeData\<close> returns its characters without
  quotes, which \<^verbatim>\<open>JSON.parse\<close> rejects. This text is what the editor starts from, so
  saving the node without a change fails with the message for malformed text. The rows
  of an object, which \<^verbatim>\<open>normalizeNodeData\<close> hands to \<^verbatim>\<open>JSON.stringify\<close>, do parse back to
  their object, and so would the string, written by \<^verbatim>\<open>JSON.stringify\<close>.
\<close>

theorem keyless_string_row_is_not_json:
  \<open>normalizeNodeData JSON_stringify num_text (Some ann_row) = Inr ''Ann'' \<and>
   spec_reconstructed_value ann_row = JStr ''Ann'' \<and>
   JSON_parse ''Ann'' = None \<and>
   editedText ann_unedited = ''Ann'' \<and>
   handleSave JSON_parse JSON_stringify ann_unedited =
     Some (ann_unedited\<lparr>error := Some invalid_json_message\<rparr>) \<and>
   JSON_stringify (JStr ''Ann'') = ''"Ann"'' \<and>
   JSON_parse (JSON_stringify (JStr ''Ann'')) = Some (JStr ''Ann'') \<and>
   normalizeNodeData JSON_stringify num_text (Some user_rows) =
     Inr (JSON_stringify (JObj [(''name'', JStr ''Ann''), (''age'', JNum 30)])) \<and>
   JSON_parse (JSON_stringify (JObj [(''name'', JStr ''Ann''), (''age'', JNum 30)])) =
     Some (JObj [(''name'', JStr ''Ann''), (''age'', JNum 30)]) \<and>
   spec_reconstructed_value user_rows = JObj [(''name'', JStr ''Ann''), (''age'', JNum 30)]\<close>
proof -
  have n: "normalizeNodeData JSON_stringify num_text (Some ann_row) = Inr ''Ann''"
    by (simp add: normalizeNodeData_def ann_row_def falsy_key_def)
  have r: "spec_reconstructed_value ann_row = JStr ''Ann''"
    by (simp add: spec_reconstructed_value_def ann_row_def)
  have p: "JSON_parse ''Ann'' = None" by code_simp
  have e: "editedText ann_unedited = ''Ann''" by (simp add: ann_unedited_def)
  have h: "handleSave JSON_parse JSON_stringify ann_unedited =
     Some (ann_unedited\<lparr>error := Some invalid_json_message\<rparr>)"
    using p by (simp add: handleSave_def try_save_def ann_unedited_def)
  have s: \<open>JSON_stringify (JStr ''Ann'') = ''"Ann"''\<close> by code_simp
  have q: "JSON_parse (JSON_stringify (JStr ''Ann'')) = Some (JStr ''Ann'')" by code_simp
  have u: "normalizeNodeData JSON_stringify num_text (Some user_rows) =
     Inr (JSON_stringify (JObj [(''name'', JStr ''Ann''), (''age'', JNum 30)]))" by code_simp
  have v: "JSON_parse (JSON_stringify (JObj [(''name'', JStr ''Ann''), (''age'', JNum 30)])) =
     Some (JObj [(''name'', JStr ''Ann''), (''age'', JNum 30)])" by code_simp
  have w: "spec_reconstructed_value user_rows = JObj [(''name'', JStr ''Ann''), (''age'', JNum 30)]"
    by code_simp
  show ?thesis using n r p e h s q u v w by simp
qed

section \<open>Claims about handleSave\<close>




text \<open>
  Claim C5: when the edited text does not parse, the exception is caught:
  \<^verbatim>\<open>handleSave\<close> returns the state it was given with only the error message set, so the
  document text and the selected node are unchanged; the message starts with
  \<^verbatim>\<open>Invalid JSON\<close>.
\<close>

theorem malformed_edit:
  assumes "parse (editedText st) = None"
  shows "try_save parse stringify (st\<lparr>error := None\<rparr>) = Inl SyntaxError \<and>
         handleSave parse stringify st = Some (st\<lparr>error := Some invalid_json_message\<rparr>) \<and>
         map_option json (handleSave parse stringify st) = Some (json st) \<and>
         map_option selectedNode (handleSave parse stringify st) = Some (selectedNode st) \<and>
         take 12 invalid_json_message = ''Invalid JSON''"
  using assms by (simp add: handleSave_def try_save_def invalid_json_message_def)

theorem malformed_edit_witness:
  "JSON_parse (editedText bad_edit) = None \<and>
   handleSave JSON_parse JSON_stringify bad_edit = Some (bad_edit\<lparr>error := Some invalid_json_message\<rparr>) \<and>
   map_option json (handleSave JSON_parse JSON_stringify bad_edit) = Some ''{}''"
proof -
  have h: "JSON_parse (editedText bad_edit) = None"
    by (simp add: bad_edit_def) code_simp
  from malformed_edit [where parse = JSON_parse and st = bad_edit and stringify = JSON_stringify, OF h] h
  show ?thesis
    by (simp add: bad_edit_def)
qed

text \<open>
  Claim C9 as stated: with a document text that does not parse, \<^verbatim>\<open>handleSave\<close> does not
  fail. It fails for a node whose path is \<^verbatim>\<open>["constructor", "caller"]\<close> and whose rows are
  not a single keyless row: \<^verbatim>\<open>getValueAtPath\<close> reads, in the empty object that stands for
  the document, the inherited \<^verbatim>\<open>constructor\<close>, and the \<^verbatim>\<open>caller\<close> of that function throws a
  \<^verbatim>\<open>TypeError\<close>; the \<^verbatim>\<open>catch\<close> sets the message for malformed text although the edited
  text parses.
\<close>

theorem corrupt_document_caller_counterexample:
  "JSON_parse (json corrupt_doc_caller) = None \<and>
   JSON_parse (editedText corrupt_doc_caller) = Some (JNum 1) \<and>
   selectedNode corrupt_doc_caller = Some caller_node \<and>
   getValueAtPath (JObj []) (node_path caller_node) = Inl TypeError \<and>
   handleSave JSON_parse JSON_stringify corrupt_doc_caller =
     Some (corrupt_doc_caller\<lparr>error := Some invalid_json_message\<rparr>)"
proof -
  have d: "JSON_parse (json corrupt_doc_caller) = None"
    by (simp add: corrupt_doc_caller_def) code_simp
  have e: "JSON_parse (editedText corrupt_doc_caller) = Some (JNum 1)"
    by (simp add: corrupt_doc_caller_def) code_simp
  have n: "selectedNode corrupt_doc_caller = Some caller_node"
    by (simp add: corrupt_doc_caller_def)
  have g: "getValueAtPath (JObj []) (node_path caller_node) = Inl TypeError" by code_simp
  have r: "new_root (case JSON_parse (json corrupt_doc_caller) of Some r \<Rightarrow> r | None \<Rightarrow> JObj [])
             caller_node (JNum 1) = Inl TypeError"
    unfolding d by code_simp
  from handleSave_thrown [OF e n r] d e n g show ?thesis by simp
qed

text \<open>
  Claim C9, amended: when the document text does not parse, \<^verbatim>\<open>handleSave\<close> works on the
  empty object in its place. It then fails when the edited text does not parse, when no
  node is selected, or when reading or writing at the node's path throws; for a node
  whose path is a path of ordinary keys nothing throws: no error is set, and the text of
  the root built from the empty object becomes the document.
\<close>

theorem corrupt_document_recovered:
  assumes "parse (json st) = None"
  shows "handleSave parse stringify st =
           (case parse (editedText st) of
              None \<Rightarrow> Some (st\<lparr>error := Some invalid_json_message\<rparr>)
            | Some parsed \<Rightarrow>
                (case selectedNode st of
                   None \<Rightarrow> Some (st\<lparr>error := Some no_target_message\<rparr>)
                 | Some nd \<Rightarrow>
                     (case new_root (JObj []) nd parsed of
                        Inr newRoot \<Rightarrow>
                          Some (st\<lparr>error := None, json := stringify newRoot,
                                   timer := Some (node_path nd), isEditing := False, closed := True\<rparr>)
                      | Inl e \<Rightarrow>
                          if e = Outside then None
                          else Some (st\<lparr>error := Some invalid_json_message\<rparr>)))) \<and>
         (\<forall>parsed nd.
            parse (editedText st) = Some parsed \<and> selectedNode st = Some nd \<and>
            plain_path (segments_of (node_path nd)) \<longrightarrow>
            (\<exists>newRoot. new_root (JObj []) nd parsed = Inr newRoot \<and>
               handleSave parse stringify st =
                 Some (st\<lparr>error := None, json := stringify newRoot, timer := Some (node_path nd),
                          isEditing := False, closed := True\<rparr>)))"
proof -
  have saved: "\<exists>newRoot. new_root (JObj []) nd parsed = Inr newRoot \<and>
           handleSave parse stringify st =
             Some (st\<lparr>error := None, json := stringify newRoot, timer := Some (node_path nd),
                      isEditing := False, closed := True\<rparr>)"
    if e: "parse (editedText st) = Some parsed" and n: "selectedNode st = Some nd"
      and p: "plain_path (segments_of (node_path nd))" for parsed nd
  proof -
    have "json_value (JObj [])" by simp
    from new_root_returns [OF this p] obtain newRoot where
      r: "new_root (JObj []) nd parsed = Inr newRoot" by blast
    have "new_root (case parse (json st) of Some r \<Rightarrow> r | None \<Rightarrow> JObj []) nd parsed = Inr newRoot"
      using r assms by simp
    from handleSave_saved [OF e n this] r show ?thesis by blast
  qed
  have "handleSave parse stringify st =
           (case parse (editedText st) of
              None \<Rightarrow> Some (st\<lparr>error := Some invalid_json_message\<rparr>)
            | Some parsed \<Rightarrow>
                (case selectedNode st of
                   None \<Rightarrow> Some (st\<lparr>error := Some no_target_message\<rparr>)
                 | Some nd \<Rightarrow>
                     (case new_root (JObj []) nd parsed of
                        Inr newRoot \<Rightarrow>
                          Some (st\<lparr>error := None, json := stringify newRoot,
                                   timer := Some (node_path nd), isEditing := False, closed := True\<rparr>)
                      | Inl e \<Rightarrow>
                          if e = Outside then None
                          else Some (st\<lparr>error := Some invalid_json_message\<rparr>))))"
    using assms by (simp add: handleSave_def try_save_def Let_def split: option.splits sum.splits)
  with saved show ?thesis by blast
qed

theorem corrupt_document_recovered_witness:
  "JSON_parse (json corrupt_doc) = None \<and>
   JSON_parse (editedText corrupt_doc) = Some (JObj [(''age'', JNum 31)]) \<and>
   selectedNode corrupt_doc = Some user_node \<and>
   plain_path (segments_of (node_path user_node)) \<and>
   new_root (JObj []) user_node (JObj [(''age'', JNum 31)]) =
     Inr (JObj [(''user'', JObj [(''age'', JNum 31)])]) \<and>
   handleSave JSON_parse JSON_stringify corrupt_doc =
     Some (corrupt_doc
       \<lparr>error := None, json := JSON_stringify (JObj [(''user'', JObj [(''age'', JNum 31)])]),
        timer := Some (node_path user_node), isEditing := False, closed := True\<rparr>)"
proof -
  have d: "JSON_parse (json corrupt_doc) = None"
    by (simp add: corrupt_doc_def) code_simp
  have e: "JSON_parse (editedText corrupt_doc) = Some (JObj [(''age'', JNum 31)])"
    by (simp add: corrupt_doc_def) code_simp
  have n: "selectedNode corrupt_doc = Some user_node"
    by (simp add: corrupt_doc_def)
  have p: "plain_path (segments_of (node_path user_node))" by code_simp
  have r: "new_root (JObj []) user_node (JObj [(''age'', JNum 31)])
             = Inr (JObj [(''user'', JObj [(''age'', JNum 31)])])"
    by code_simp
  from corrupt_document_recovered [where parse = JSON_parse and stringify = JSON_stringify, OF d] e n p
  obtain newRoot where
    "new_root (JObj []) user_node (JObj [(''age'', JNum 31)]) = Inr newRoot"
    and h: "handleSave JSON_parse JSON_stringify corrupt_doc =
             Some (corrupt_doc\<lparr>error := None, json := JSON_stringify newRoot,
                timer := Some (node_path user_node), isEditing := False, closed := True\<rparr>)"
    by blast
  with r have "newRoot = JObj [(''user'', JObj [(''age'', JNum 31)])]" by simp
  with h d e n p r show ?thesis by simp
qed

section \<open>setValueAtPath on a store: what is shared and what is new\<close>


lemma val_ok_ref: "val_ok n x \<Longrightarrow> \<forall>a. x = VRef a \<longrightarrow> a < n"
  by (cases x) simp_all










lemma store_read_old:
  "length h0 \<le> length h \<Longrightarrow> \<forall>a<length h0. h ! a = h0 ! a \<Longrightarrow> \<forall>a. x = VRef a \<longrightarrow> a < length h0 \<Longrightarrow>
   store_read h x s = store_read h0 x s"
  by (cases x) auto

lemma rd_old:
  "length h0 \<le> length h \<Longrightarrow> \<forall>a<length h0. h ! a = h0 ! a \<Longrightarrow> val_ok (length h0) x \<Longrightarrow>
   rd h x k = rd h0 x k"
  using store_read_old [of h0 h x "Key k"] val_ok_ref [of "length h0" x] by (simp add: rd_def)







lemma store_set_loop_step:
  assumes "c < length h" and "decimal_seg seg"
    and "val_found (cell_find (h ! c) (to_key seg)) = Inr cur"
    and "cell_assign (h ! c) (to_key seg) (VRef (length h)) = Inr c1"
    and "val_found (cell_find c1 (to_key seg)) = Inr (VRef (length h))"
  shows "store_set_loop h (VRef c) (seg # nextSeg # rest) v =
         store_set_loop
           ((h @ [if cur = VUndef \<or> cur = VNull then fresh_cell nextSeg else copy_cell h cur])[c := c1])
           (VRef (length h)) (nextSeg # rest) v"
  using assms by (simp add: allocate_def nth_append seg_find_def)








section \<open>The two models of setValueAtPath and getValueAtPath agree\<close>

text \<open>
  The functions on values compute what the functions on the store compute: from a root
  and a value that represent \<open>t\<close> and \<open>tv\<close>, \<^verbatim>\<open>setValueAtPath\<close> on the store ends in the fault
  in which \<^verbatim>\<open>setValueAtPath\<close> on values ends for \<open>t\<close> and \<open>tv\<close>, or returns a root that
  represents what that returns; likewise for \<^verbatim>\<open>getValueAtPath\<close>. So the write-back in
  \<open>set_loop\<close> is the effect of the assignments through the shared reference.
\<close>

lemma represents_ref:
  "represents h (VRef a) t \<longleftrightarrow> a < length h \<and> cell_rel (represents h) (h ! a) t"
  by (cases t; cases "h ! a") (auto simp: rel_entries_def)

lemma represents_container:
  "is_container t \<Longrightarrow> represents h v t \<Longrightarrow> \<exists>a. v = VRef a"
  by (cases t; cases v) auto

lemma represents_prim:
  "\<not> is_container t \<Longrightarrow> represents h v t \<Longrightarrow> represents h' v t"
  by (cases t) auto

lemma represents_not_ref: "\<not> is_container t \<Longrightarrow> represents h v t \<Longrightarrow> \<forall>a. v \<noteq> VRef a"
  by (cases t) auto

lemma represents_mono:
  "represents h0 x t \<Longrightarrow> length h0 \<le> length h \<Longrightarrow> \<forall>a<length h0. h ! a = h0 ! a \<Longrightarrow>
   represents h x t"
proof (induction h0 x t rule: represents.induct)
  case (7 h0 v tes tps)
  from "7.prems"(1) obtain a es ps where v: "v = VRef a" and a: "a < length h0"
    and c: "h0 ! a = CArr es ps"
    and r: "list_all2 (represents h0) es tes"
           "list_all2 (\<lambda>p q. fst p = fst q \<and> represents h0 (snd p) (snd q)) ps tps"
    by (cases v) (auto split: if_splits option.splits cell.splits)
  have co: "cell_of h0 v = Some (CArr es ps)" using v a c by simp
  have e: "list_all2 (represents h) es tes"
    using r(1) "7.IH"(1) [OF co refl _ _ _ "7.prems"(2,3)]
    by (rule list.rel_mono_strong)
  have p: "list_all2 (\<lambda>p q. fst p = fst q \<and> represents h (snd p) (snd q)) ps tps"
  proof (rule list.rel_mono_strong [OF r(2)])
    fix z yb
    assume "z \<in> set ps" "yb \<in> set tps" "fst z = fst yb \<and> represents h0 (snd z) (snd yb)"
    then show "fst z = fst yb \<and> represents h (snd z) (snd yb)"
      using "7.IH"(2) [OF co refl _ _ _ "7.prems"(2,3)] by blast
  qed
  show ?case
    using v a c e p "7.prems"(2,3) by simp
next
  case (8 h0 v tkvs)
  from "8.prems"(1) obtain a kvs where v: "v = VRef a" and a: "a < length h0"
    and c: "h0 ! a = CObj kvs"
    and r: "list_all2 (\<lambda>p q. fst p = fst q \<and> represents h0 (snd p) (snd q)) kvs tkvs"
    by (cases v) (auto split: if_splits option.splits cell.splits)
  have co: "cell_of h0 v = Some (CObj kvs)" using v a c by simp
  have p: "list_all2 (\<lambda>p q. fst p = fst q \<and> represents h (snd p) (snd q)) kvs tkvs"
  proof (rule list.rel_mono_strong [OF r])
    fix z yb
    assume "z \<in> set kvs" "yb \<in> set tkvs" "fst z = fst yb \<and> represents h0 (snd z) (snd yb)"
    then show "fst z = fst yb \<and> represents h (snd z) (snd yb)"
      using "8.IH" [OF co refl _ _ _ "8.prems"(2,3)] by blast
  qed
  show ?case
    using v a c p "8.prems"(2,3) by simp
qed auto

lemma cell_rel_mono:
  "cell_rel R c t \<Longrightarrow> (\<And>x y. R x y \<Longrightarrow> R' x y) \<Longrightarrow> cell_rel R' c t"
  by (cases c; cases t) (auto simp: rel_entries_def elim!: list_all2_mono)

lemma rel_entries_keys: "rel_entries R kvs tkvs \<Longrightarrow> map fst kvs = map fst tkvs"
  unfolding rel_entries_def by (induction kvs tkvs rule: list_all2_induct) auto

lemma rel_entries_key_set: "rel_entries R kvs tkvs \<Longrightarrow> fst ` set kvs = fst ` set tkvs"
  using rel_entries_keys [of R kvs tkvs] by (metis set_map)

lemma rel_entries_map_of:
  "rel_entries R kvs tkvs \<Longrightarrow> rel_option R (map_of kvs k) (map_of tkvs k)"
  unfolding rel_entries_def by (induction kvs tkvs rule: list_all2_induct) auto

lemma rel_update:
  "rel_entries R kvs tkvs \<Longrightarrow> R v t \<Longrightarrow> rel_entries R (AList.update k v kvs) (AList.update k t tkvs)"
  unfolding rel_entries_def by (induction kvs tkvs rule: list_all2_induct) auto

lemma rel_insert_index:
  "rel_entries R kvs tkvs \<Longrightarrow> R v t \<Longrightarrow>
   rel_entries R (insert_index i (k, v) kvs) (insert_index i (k, t) tkvs)"
  unfolding rel_entries_def
  by (induction kvs tkvs rule: list_all2_induct) (auto split: option.splits)

lemma rel_obj_put:
  assumes "rel_entries R kvs tkvs" and "R v t"
  shows "rel_entries R (obj_put k v kvs) (obj_put k t tkvs)"
proof -
  have "fst ` set kvs = fst ` set tkvs"
    using rel_entries_key_set [OF assms(1)] .
  moreover have "rel_entries R (kvs @ [(k, v)]) (tkvs @ [(k, t)])"
    using assms by (simp add: rel_entries_def list_all2_appendI)
  ultimately show ?thesis
    using rel_update [OF assms] rel_insert_index [OF assms]
    by (auto simp: obj_put_def split: option.splits)
qed

text \<open>What a key finds in a cell and in the array or object that the cell represents.\<close>

lemma rel_obj_find:
  assumes "rel_entries (represents h) kvs tkvs"
  shows "rel_sum (=) (represents h) (val_found (obj_find kvs k)) (read_found (obj_find tkvs k))"
proof -
  have i: "rel_sum (=) (represents h) (val_found (inherited k)) (read_found (inherited k))"
    by (simp add: inherited_def)
  show ?thesis
    using rel_entries_map_of [OF assms, of k] i
    by (auto simp: obj_find_def split: option.splits)
qed

lemma rel_arr_find:
  assumes "list_all2 (represents h) es tes" and "rel_entries (represents h) ps tps"
  shows "rel_sum (=) (represents h) (val_found (arr_find es ps k)) (read_found (arr_find tes tps k))"
  using assms(1) rel_obj_find [OF assms(2), of k]
  by (auto simp: arr_find_def list_all2_lengthD list_all2_nthD split: option.splits)

lemma rel_cell_find:
  "cell_rel (represents h) c t \<Longrightarrow>
   is_container t \<and>
   rel_sum (=) (represents h) (val_found (seg_find (cell_find c) s)) (prop_read t s)"
  by (cases c; cases t) (auto simp: cell_find_def seg_find_def rel_arr_find rel_obj_find)

lemma read_refines:
  assumes "represents h x t"
  shows "rel_sum (=) (represents h) (store_read h x s) (prop_read t s)"
proof (cases "is_container t")
  case True
  then obtain a where x: "x = VRef a" using represents_container assms by blast
  with assms have a: "a < length h" and c: "cell_rel (represents h) (h ! a) t"
    by (simp_all add: represents_ref)
  from rel_cell_find [OF c, of s] x a show ?thesis by simp
next
  case False
  then show ?thesis
    using assms by (cases t) (auto simp: seg_find_def inherited_def str_find_def split: option.splits)
qed

lemma represents_nullish:
  "represents h x t \<Longrightarrow> (x = VUndef \<or> x = VNull) = (t = JUndef \<or> t = JNull)"
  by (cases t; cases x) (auto split: if_splits)

lemma rel_sum_InlD: "rel_sum (=) R (Inl e) b \<Longrightarrow> b = Inl e"
  by (cases b) auto

lemma rel_sum_InrD: "rel_sum (=) R (Inr y) b \<Longrightarrow> \<exists>ty. b = Inr ty \<and> R y ty"
  by (cases b) auto

lemma store_get_loop_refines:
  "represents h x t \<Longrightarrow> rel_sum (=) (represents h) (store_get_loop h x P) (get_loop t P)"
proof (induction P arbitrary: x t)
  case Nil
  then show ?case by simp
next
  case (Cons s P)
  show ?case
  proof (cases "x = VUndef \<or> x = VNull")
    case True
    with represents_nullish [OF Cons.prems] show ?thesis by (auto simp: nullish_def)
  next
    case False
    with represents_nullish [OF Cons.prems] have nt: "\<not> nullish t" by (simp add: nullish_def)
    show ?thesis
    proof (cases "store_read h x s")
      case (Inl e)
      with rel_sum_InlD [of "represents h" e "prop_read t s"] read_refines [OF Cons.prems, of s]
      have "prop_read t s = Inl e" by simp
      with Inl False nt show ?thesis by simp
    next
      case (Inr y)
      with rel_sum_InrD [of "represents h" y "prop_read t s"] read_refines [OF Cons.prems, of s]
      obtain ty where "prop_read t s = Inr ty" "represents h y ty" by auto
      with Cons.IH [of y ty] Inr False nt show ?thesis by simp
    qed
  qed
qed

theorem store_getValueAtPath_refines:
  assumes "represents h rootv t"
  shows "rel_sum (=) (represents h) (store_getValueAtPath h rootv p) (getValueAtPath t p)"
  using assms store_get_loop_refines [OF assms]
  by (auto simp: store_getValueAtPath_def getValueAtPath_def split: option.splits)

lemma conversions_refine:
  "represents h v tv \<Longrightarrow> val_length_value v = length_value tv \<and> val_setter_ignores v = setter_ignores tv"
  by (cases tv; cases v) (auto split: if_splits option.splits cell.splits)

lemma rel_obj_assign:
  assumes "rel_entries R kvs tkvs" and "R v tv"
  shows "rel_sum (=) (rel_entries R) (obj_assign kvs k v ign) (obj_assign tkvs k tv ign)"
  using rel_obj_put [OF assms, of k] rel_entries_key_set [OF assms(1)] assms(1)
  by (auto simp: obj_assign_def)

lemma rel_set_length:
  "list_all2 R es tes \<Longrightarrow> R u tu \<Longrightarrow> list_all2 R (set_length u es n) (set_length tu tes n)"
  unfolding set_length_def
  by (intro list_all2_appendI list_all2_takeI) (auto simp: list_all2_conv_all_nth dest: list_all2_lengthD)

lemma rel_arr_assign:
  assumes "list_all2 R es tes" and "rel_entries R ps tps" and "R u tu" and "R v tv"
  shows "rel_sum (=) (\<lambda>a b. list_all2 R (fst a) (fst b) \<and> rel_entries R (snd a) (snd b))
           (arr_assign u es ps k v len ign) (arr_assign tu tes tps k tv len ign)"
proof (cases "array_index k")
  case None
  show ?thesis
  proof (cases "k = ''length''")
    case True
    with None rel_set_length [OF assms(1,3)] assms(2) show ?thesis
      by (cases len) (auto simp: arr_assign_def)
  next
    case False
    from rel_obj_assign [OF assms(2,4), of k ign] show ?thesis
      using None False assms(1)
      by (cases "obj_assign ps k v ign"; cases "obj_assign tps k tv ign") (auto simp: arr_assign_def)
  qed
next
  case (Some i)
  have len: "length es = length tes" using assms(1) by (rule list_all2_lengthD)
  have "list_all2 R (es[i := v]) (tes[i := tv])"
    using assms(1,4) by (simp add: list_all2_update_cong)
  moreover have "list_all2 R (es @ replicate (i - length es) u @ [v]) (tes @ replicate (i - length tes) tu @ [tv])"
  proof -
    have "list_all2 R (replicate (i - length es) u) (replicate (i - length tes) tu)"
      using assms(3) len by (simp add: list_all2_conv_all_nth)
    moreover have "list_all2 R [v] [tv]" using assms(4) by simp
    ultimately show ?thesis using assms(1) by (intro list_all2_appendI)
  qed
  ultimately show ?thesis
    using Some assms(2) len by (simp add: arr_assign_def)
qed

lemma rel_cell_assign:
  assumes "cell_rel R c t" and "R VUndef JUndef" and "R v tv"
    and "val_length_value v = length_value tv" and "val_setter_ignores v = setter_ignores tv"
    and "decimal_seg s"
  shows "rel_sum (=) (cell_rel R) (cell_assign c (to_key s) v) (prop_write t s tv)"
proof (cases c; cases t)
  fix es ps tes tps
  assume c: "c = CArr es ps" and t: "t = JArr tes tps"
  with assms(1) have r: "list_all2 R es tes" "rel_entries R ps tps" by simp_all
  from rel_arr_assign [OF r assms(2,3), of "to_key s" "length_value tv" "setter_ignores tv"]
  show ?thesis
    using assms(4,5,6) c t
    by (cases "arr_assign VUndef es ps (to_key s) v (length_value tv) (setter_ignores tv)";
        cases "arr_assign JUndef tes tps (to_key s) tv (length_value tv) (setter_ignores tv)")
       (auto simp: cell_assign_def)
next
  fix kvs tkvs
  assume c: "c = CObj kvs" and t: "t = JObj tkvs"
  with assms(1) have r: "rel_entries R kvs tkvs" by simp
  from rel_obj_assign [OF r assms(3), of "to_key s" "setter_ignores tv"]
  show ?thesis
    using assms(5,6) c t
    by (cases "obj_assign kvs (to_key s) v (setter_ignores tv)";
        cases "obj_assign tkvs (to_key s) tv (setter_ignores tv)")
       (auto simp: cell_assign_def)
qed (use assms(1) in simp_all)

text \<open>After an array or object has been assigned to a property, the property holds it.\<close>

lemma obj_assigned: "obj_assign kvs k v False = Inr kvs' \<Longrightarrow> kvs' = obj_put k v kvs"
  by (auto simp: obj_assign_def split: if_splits)

lemma arr_assigned:
  assumes "arr_assign u es ps k v (Inl Outside) False = Inr (es', ps')"
  shows "arr_find es' ps' k = Own v"
proof (cases "array_index k")
  case None
  with assms have "k \<noteq> ''length''" by (auto simp: arr_assign_def)
  with None assms obtain ps1 where "obj_assign ps k v False = Inr ps1" "ps' = ps1" "es' = es"
    by (auto simp: arr_assign_def split: sum.splits)
  with obj_assigned [of ps k v ps1] None \<open>k \<noteq> ''length''\<close> show ?thesis
    by (simp add: arr_find_def obj_find_put)
next
  case (Some i)
  with assms show ?thesis
    by (auto simp: arr_assign_def arr_find_def nth_append)
qed

lemma container_conversions:
  "is_container a \<Longrightarrow> length_value a = Inl Outside \<and> \<not> setter_ignores a"
  by (cases a) simp_all

lemma prop_read_assigned:
  assumes "prop_write t s a = Inr t1" and "is_container a"
  shows "prop_read t1 s = Inr a"
proof (cases t)
  case (JArr es ps)
  with assms(1) obtain es' ps' where d: "decimal_seg s"
    and w: "arr_assign JUndef es ps (to_key s) a (length_value a) (setter_ignores a) = Inr (es', ps')"
    and t1: "t1 = JArr es' ps'"
    by (auto split: if_splits sum.splits)
  from arr_assigned [of JUndef es ps "to_key s" a es' ps'] w container_conversions [OF assms(2)]
  show ?thesis using d by (simp add: t1 seg_find_def)
next
  case (JObj kvs)
  with assms(1) obtain kvs' where d: "decimal_seg s"
    and w: "obj_assign kvs (to_key s) a (setter_ignores a) = Inr kvs'"
    and t1: "t1 = JObj kvs'"
    by (auto split: if_splits sum.splits)
  from obj_assigned [of kvs "to_key s" a kvs'] w container_conversions [OF assms(2)]
  have "kvs' = obj_put (to_key s) a kvs" by simp
  then show ?thesis using d by (simp add: t1 seg_find_def obj_find_put)
qed (use assms(1) in simp_all)

lemma cell_find_assigned:
  assumes "cell_assign c k (VRef a) = Inr c1"
  shows "cell_find c1 k = Own (VRef a)"
proof (cases c)
  case (CArr es ps)
  with assms obtain es' ps' where
    "arr_assign VUndef es ps k (VRef a) (Inl Outside) False = Inr (es', ps')" "c1 = CArr es' ps'"
    by (auto simp: cell_assign_def split: sum.splits)
  with arr_assigned [of VUndef es ps k "VRef a" es' ps'] show ?thesis by (simp add: cell_find_def)
next
  case (CObj kvs)
  with assms obtain kvs' where "obj_assign kvs k (VRef a) False = Inr kvs'" "c1 = CObj kvs'"
    by (auto simp: cell_assign_def split: sum.splits)
  with obj_assigned [of kvs k "VRef a" kvs'] show ?thesis by (simp add: cell_find_def obj_find_put)
qed

text \<open>Assigning a second array or object to the same property.\<close>

lemma keys_obj_put: "fst ` set (obj_put k v kvs) = insert k (fst ` set kvs)"
proof -
  have "dom (map_of (obj_put k v kvs)) = insert k (dom (map_of kvs))"
    by (auto simp: map_of_obj_put dom_def)
  then show ?thesis by (simp add: dom_map_of_conv_image_fst)
qed

lemma update_insert_index:
  "k \<notin> fst ` set kvs \<Longrightarrow> AList.update k b (insert_index i (k, a) kvs) = insert_index i (k, b) kvs"
  by (induction kvs) (auto split: option.splits)

lemma update_snoc:
  "k \<notin> fst ` set kvs \<Longrightarrow> AList.update k b (kvs @ [(k, a)]) = kvs @ [(k, b)]"
  by (induction kvs) auto

lemma obj_put_twice: "obj_put k b (obj_put k a kvs) = obj_put k b kvs"
proof (cases "k \<in> fst ` set kvs")
  case True
  then have "k \<in> fst ` set (AList.update k a kvs)"
    using dom_update [of k a kvs] by (simp add: dom_map_of_conv_image_fst)
  with True show ?thesis by (simp add: obj_put_def)
next
  case False
  have "k \<in> fst ` set (obj_put k a kvs)" by (simp add: keys_obj_put)
  then show ?thesis
    using False
    by (auto simp: obj_put_def update_insert_index update_snoc set_insert_index split: option.splits)
qed

lemma obj_assign_twice:
  assumes "obj_assign kvs k a False = Inr kvs1"
  shows "obj_assign kvs1 k b False = obj_assign kvs k b False"
proof -
  have k1: "kvs1 = obj_put k a kvs" using obj_assigned [OF assms] .
  have own: "k \<in> fst ` set kvs1" by (simp add: k1 keys_obj_put)
  have "k \<in> fst ` set kvs \<or> k \<noteq> ''__proto__''"
    using assms by (auto simp: obj_assign_def split: if_splits)
  then have "obj_assign kvs k b False = Inr (obj_put k b kvs)"
    by (auto simp: obj_assign_def)
  moreover have "obj_assign kvs1 k b False = Inr (obj_put k b kvs1)"
    using own by (simp add: obj_assign_def)
  ultimately show ?thesis by (simp add: k1 obj_put_twice)
qed

lemma update_past_end:
  "length es \<le> i \<Longrightarrow>
   (es @ replicate (i - length es) u @ [a])[i := b] = es @ replicate (i - length es) u @ [b]"
  by (simp add: list_update_append)

lemma arr_assign_twice:
  assumes "arr_assign u es ps k a (Inl Outside) False = Inr (es1, ps1)"
  shows "arr_assign u es1 ps1 k b (Inl Outside) False = arr_assign u es ps k b (Inl Outside) False"
proof (cases "array_index k")
  case None
  with assms have l: "k \<noteq> ''length''" by (auto simp: arr_assign_def)
  with None assms have "obj_assign ps k a False = Inr ps1" "es1 = es"
    by (auto simp: arr_assign_def split: sum.splits)
  with obj_assign_twice [of ps k a ps1 b] None l show ?thesis
    by (simp add: arr_assign_def)
next
  case (Some i)
  with assms show ?thesis
    by (auto simp: arr_assign_def update_past_end split: if_splits)
qed

lemma prop_write_twice:
  assumes "prop_write t s a = Inr t1" and "is_container a" and "is_container b"
  shows "prop_write t1 s b = prop_write t s b"
proof (cases t)
  case (JArr es ps)
  with assms(1) obtain es' ps' where d: "decimal_seg s"
    and w: "arr_assign JUndef es ps (to_key s) a (length_value a) (setter_ignores a) = Inr (es', ps')"
    and t1: "t1 = JArr es' ps'"
    by (auto split: if_splits sum.splits)
  from arr_assign_twice [of JUndef es ps "to_key s" a es' ps' b] w
    container_conversions [OF assms(2)] container_conversions [OF assms(3)]
  show ?thesis using d by (simp add: t1 JArr)
next
  case (JObj kvs)
  with assms(1) obtain kvs' where d: "decimal_seg s"
    and w: "obj_assign kvs (to_key s) a (setter_ignores a) = Inr kvs'"
    and t1: "t1 = JObj kvs'"
    by (auto split: if_splits sum.splits)
  from obj_assign_twice [of kvs "to_key s" a kvs' b] w
    container_conversions [OF assms(2)] container_conversions [OF assms(3)]
  show ?thesis using d by (simp add: t1 JObj)
qed (use assms(1) in simp_all)

lemma rel_str_entries:
  "(\<And>c. R (VStr c) (JStr c)) \<Longrightarrow> rel_entries R (str_entries VStr s) (str_entries JStr s)"
  by (simp add: rel_entries_def str_entries_def list_all2_conv_all_nth)

lemma cell_rel_fresh: "cell_rel R (fresh_cell s) (fresh_container s)"
  by (cases s) (simp_all add: rel_entries_def)

lemma cell_rel_copy:
  assumes "represents h0 x t" and "length h0 \<le> length h" and "\<forall>a<length h0. h ! a = h0 ! a"
  shows "cell_rel (represents h0) (copy_cell h x) (shallow_copy t)"
proof (cases "is_container t")
  case True
  then obtain a where x: "x = VRef a" using represents_container assms(1) by blast
  with assms(1) have a: "a < length h0" and c: "cell_rel (represents h0) (h0 ! a) t"
    by (simp_all add: represents_ref)
  have "h ! a = h0 ! a" "a < length h" using a assms(2,3) by auto
  then show ?thesis
    using x c by (cases "h0 ! a"; cases t) (auto simp: rel_entries_def)
next
  case False
  then show ?thesis
    using assms(1) by (cases t) (auto simp: rel_entries_def rel_str_entries [unfolded rel_entries_def])
qed

lemma cell_rel_container: "cell_rel R c t \<Longrightarrow> is_container t"
  by (cases c; cases t) simp_all

lemma store_set_loop_read_fault:
  assumes "c < length h" and "val_found (seg_find (cell_find (h ! c)) seg) = Inl e"
  shows "store_set_loop h (VRef c) (seg # nextSeg # rest) v = Inl e"
  using assms by simp

lemma store_set_loop_write_fault:
  assumes "c < length h" and "decimal_seg seg"
    and "val_found (cell_find (h ! c) (to_key seg)) = Inr cur"
    and "cell_assign (h ! c) (to_key seg) (VRef (length h)) = Inl e"
  shows "store_set_loop h (VRef c) (seg # nextSeg # rest) v = Inl e"
  using assms by (simp add: allocate_def nth_append seg_find_def)

lemma prop_write_not_decimal:
  "is_container t \<Longrightarrow> \<not> decimal_seg s \<Longrightarrow> prop_write t s v = Inl Outside \<and> prop_read t s = Inl Outside"
  by (cases t) (simp_all add: seg_find_def)

lemma store_set_loop_refines:
  "P \<noteq> [] \<Longrightarrow> length h0 \<le> c \<Longrightarrow> c < length h \<Longrightarrow> \<forall>a<length h0. h ! a = h0 ! a \<Longrightarrow>
   cell_rel (represents h0) (h ! c) tc \<Longrightarrow> represents h0 v tv \<Longrightarrow>
   rel_sum (=)
     (\<lambda>h' tc'. represents h' (VRef c) tc' \<and> length h \<le> length h' \<and>
        (\<forall>a<length h. a \<noteq> c \<longrightarrow> h' ! a = h ! a))
     (store_set_loop h (VRef c) P v) (set_loop tc P tv)"
proof (induction P arbitrary: h c tc)
  case Nil
  then show ?case by simp
next
  case (Cons seg P')
  note c0 = \<open>length h0 \<le> c\<close> and c1 = \<open>c < length h\<close> and ext = \<open>\<forall>a<length h0. h ! a = h0 ! a\<close>
    and cr = \<open>cell_rel (represents h0) (h ! c) tc\<close> and rv = \<open>represents h0 v tv\<close>
  have tcc: "is_container tc" using cell_rel_container [OF cr] .
  have len0: "length h0 \<le> length h" using c0 c1 by simp
  show ?case
  proof (cases "decimal_seg seg")
    case False
    have "store_set_loop h (VRef c) (seg # P') v = Inl Outside"
      using False c1 by (cases P') (simp_all add: seg_find_def)
    moreover have "set_loop tc (seg # P') tv = Inl Outside"
      using prop_write_not_decimal [OF tcc False] by (cases P') simp_all
    ultimately show ?thesis by simp
  next
    case True
    note ds = True
    show ?thesis
    proof (cases P')
      case Nil
      have mono: "represents h0 x y \<Longrightarrow> represents h x y" for x y
        using represents_mono len0 ext by blast
      have crh: "cell_rel (represents h) (h ! c) tc"
        using cell_rel_mono [OF cr] mono by blast
      have u: "represents h VUndef JUndef" by simp
      note conv = conversions_refine [OF rv]
      from rel_cell_assign [OF crh u mono [OF rv] conv [THEN conjunct1] conv [THEN conjunct2] ds]
      have rel: "rel_sum (=) (cell_rel (represents h)) (cell_assign (h ! c) (to_key seg) v) (prop_write tc seg tv)" .
      show ?thesis
      proof (cases "cell_assign (h ! c) (to_key seg) v")
        case (Inl e)
        with rel rel_sum_InlD have "prop_write tc seg tv = Inl e" by fastforce
        with Inl Nil c1 ds show ?thesis by simp
      next
        case (Inr c1')
        with rel rel_sum_InrD [of "cell_rel (represents h)" c1' "prop_write tc seg tv"]
        obtain tc' where w: "prop_write tc seg tv = Inr tc'" and r: "cell_rel (represents h) c1' tc'"
          by auto
        define h' where "h' = h[c := c1']"
        have ext': "length h \<le> length h'" "\<forall>a<length h. a \<noteq> c \<longrightarrow> h' ! a = h ! a"
          by (simp_all add: h'_def)
        have r0: "cell_rel (represents h0) c1' tc'"
        proof -
          from rel_cell_assign [OF cr _ rv conv [THEN conjunct1] conv [THEN conjunct2] ds]
          have "rel_sum (=) (cell_rel (represents h0)) (cell_assign (h ! c) (to_key seg) v) (prop_write tc seg tv)"
            by simp
          with Inr w show ?thesis by simp
        qed
        have mono': "represents h0 x y \<Longrightarrow> represents h' x y" for x y
          using represents_mono [of h0 x y h'] c0 c1 ext by (auto simp: h'_def)
        have "cell_rel (represents h') c1' tc'"
          using cell_rel_mono [OF r0] mono' by blast
        then have "represents h' (VRef c) tc'"
          using c1 by (simp add: represents_ref h'_def)
        then show ?thesis
          using Nil c1 ds w Inr ext' by (simp add: h'_def)
      qed
    next
      case (Cons nextSeg rest)
      from rel_cell_find [OF cr, of seg] ds
      have rrel: "rel_sum (=) (represents h0) (val_found (cell_find (h ! c) (to_key seg))) (prop_read tc seg)"
        by (simp add: seg_find_def)
      show ?thesis
      proof (cases "val_found (cell_find (h ! c) (to_key seg))")
        case (Inl e)
        with rrel rel_sum_InlD have "prop_read tc seg = Inl e" by fastforce
        moreover have "store_set_loop h (VRef c) (seg # P') v = Inl e"
          unfolding Cons using store_set_loop_read_fault [OF c1] Inl ds by (simp add: seg_find_def)
        ultimately show ?thesis using Cons by simp
      next
        case (Inr cur)
        with rrel rel_sum_InrD [of "represents h0" cur "prop_read tc seg"]
        obtain tcur where trd: "prop_read tc seg = Inr tcur" and rcur: "represents h0 cur tcur"
          by auto
        define newcell where
          "newcell = (if cur = VUndef \<or> cur = VNull then fresh_cell nextSeg else copy_cell h cur)"
        define tchild where
          "tchild = (if tcur = JUndef \<or> tcur = JNull then fresh_container nextSeg else shallow_copy tcur)"
        have rnew: "cell_rel (represents h0) newcell tchild"
          using represents_nullish [OF rcur] cell_rel_fresh cell_rel_copy [OF rcur len0 ext]
          by (auto simp: newcell_def tchild_def)
        have tchc: "is_container tchild" using cell_rel_container [OF rnew] .
        define c' where "c' = length h"
        define h1 where "h1 = h @ [newcell]"
        have ext1: "length h0 \<le> length h1" "\<forall>a<length h0. h1 ! a = h0 ! a"
          using len0 ext by (auto simp: h1_def nth_append)
        have mono1: "represents h0 x y \<Longrightarrow> represents h1 x y" for x y
          using represents_mono ext1 by blast
        have cr1: "cell_rel (represents h1) (h ! c) tc"
          using cell_rel_mono [OF cr] mono1 by blast
        have rch1: "represents h1 (VRef c') tchild"
          using cell_rel_mono [OF rnew] mono1 by (simp add: represents_ref h1_def c'_def)
        have u1: "represents h1 VUndef JUndef" by simp
        note conv1 = conversions_refine [OF rch1]
        from rel_cell_assign [OF cr1 u1 rch1 conv1 [THEN conjunct1] conv1 [THEN conjunct2] ds]
        have wrel: "rel_sum (=) (cell_rel (represents h1))
                      (cell_assign (h ! c) (to_key seg) (VRef c')) (prop_write tc seg tchild)" .
        show ?thesis
        proof (cases "cell_assign (h ! c) (to_key seg) (VRef c')")
          case (Inl e)
          with wrel rel_sum_InlD have "prop_write tc seg tchild = Inl e" by fastforce
          moreover have "store_set_loop h (VRef c) (seg # P') v = Inl e"
            unfolding Cons
            using store_set_loop_write_fault [OF c1 ds \<open>val_found (cell_find (h ! c) (to_key seg)) = Inr cur\<close>]
              Inl by (simp add: c'_def)
          ultimately show ?thesis using Cons trd by (simp add: tchild_def)
        next
          case (Inr c1')
          note as = Inr
          with wrel rel_sum_InrD [of "cell_rel (represents h1)" c1' "prop_write tc seg tchild"]
          obtain cursor1 where w1: "prop_write tc seg tchild = Inr cursor1" by auto
          have rb: "val_found (cell_find c1' (to_key seg)) = Inr (VRef c')"
            using cell_find_assigned [OF as] by simp
          have trb: "prop_read cursor1 seg = Inr tchild"
            using prop_read_assigned [OF w1 tchc] .
          define h2 where "h2 = (h @ [newcell])[c := c1']"
          have len2: "length h2 = Suc (length h)" by (simp add: h2_def)
          have h2c: "h2 ! c = c1'" using c1 by (simp add: h2_def)
          have h2c': "h2 ! c' = newcell"
            using c1 by (simp add: h2_def c'_def nth_append)
          have h2old: "\<forall>a<length h. a \<noteq> c \<longrightarrow> h2 ! a = h ! a"
            by (simp add: h2_def nth_append)
          have step: "store_set_loop h (VRef c) (seg # P') v = store_set_loop h2 (VRef c') P' v"
            unfolding Cons h2_def c'_def newcell_def
            by (rule store_set_loop_step
                  [OF c1 ds \<open>val_found (cell_find (h ! c) (to_key seg)) = Inr cur\<close>
                     as [unfolded c'_def] rb [unfolded c'_def]])
          have ext2: "\<forall>a<length h0. h2 ! a = h0 ! a"
            using c0 c1 ext h2old by auto
          have "P' \<noteq> []" using Cons by simp
          moreover have "length h0 \<le> c'" using c0 c1 by (simp add: c'_def)
          moreover have "c' < length h2" by (simp add: len2 c'_def)
          moreover have "cell_rel (represents h0) (h2 ! c') tchild" using rnew by (simp add: h2c')
          ultimately have ih: "rel_sum (=)
              (\<lambda>h' tc'. represents h' (VRef c') tc' \<and> length h2 \<le> length h' \<and>
                 (\<forall>a<length h2. a \<noteq> c' \<longrightarrow> h' ! a = h2 ! a))
              (store_set_loop h2 (VRef c') P' v) (set_loop tchild P' tv)"
            using Cons.IH [OF _ _ _ ext2 _ rv] by blast
          show ?thesis
          proof (cases "store_set_loop h2 (VRef c') P' v")
            case (Inl e)
            with ih rel_sum_InlD have "set_loop tchild P' tv = Inl e" by fastforce
            with Inl step Cons trd w1 trb show ?thesis by (simp add: tchild_def)
          next
            case (Inr h')
            with ih rel_sum_InrD
              [of "\<lambda>h' tc'. represents h' (VRef c') tc' \<and> length h2 \<le> length h' \<and>
                 (\<forall>a<length h2. a \<noteq> c' \<longrightarrow> h' ! a = h2 ! a)" h' "set_loop tchild P' tv"]
            obtain tchild' where
              trun: "set_loop tchild P' tv = Inr tchild'" and
              rch: "represents h' (VRef c') tchild'" and
              len': "length h2 \<le> length h'" and
              others': "\<forall>a<length h2. a \<noteq> c' \<longrightarrow> h' ! a = h2 ! a"
              by auto
            have c_ne: "c \<noteq> c'" using c1 by (simp add: c'_def)
            have hc: "h' ! c = c1'" using others' c1 len2 c_ne h2c by simp
            have len: "length h \<le> length h'" using len' len2 by simp
            have others: "\<forall>a<length h. a \<noteq> c \<longrightarrow> h' ! a = h ! a"
              using others' h2old len2 by (auto simp: c'_def)
            have ext': "length h0 \<le> length h'" "\<forall>a<length h0. h' ! a = h0 ! a"
              using c0 c1 ext len others by auto
            have mono: "represents h0 x y \<Longrightarrow> represents h' x y" for x y
              using represents_mono ext' by blast
            have crh': "cell_rel (represents h') (h ! c) tc"
              using cell_rel_mono [OF cr] mono by blast
            have u': "represents h' VUndef JUndef" by simp
            have tch'c: "is_container tchild'"
              using rch cell_rel_container by (auto simp: represents_ref)
            note conv' = conversions_refine [OF rch]
            from rel_cell_assign [OF crh' u' rch conv' [THEN conjunct1] conv' [THEN conjunct2] ds] as
              rel_sum_InrD [of "cell_rel (represents h')" c1' "prop_write tc seg tchild'"]
            obtain tc' where
              w': "prop_write tc seg tchild' = Inr tc'" and
              r': "cell_rel (represents h') c1' tc'"
              by auto
            have rc: "represents h' (VRef c) tc'"
              using r' c1 len by (simp add: represents_ref hc)
            have w2: "prop_write cursor1 seg tchild' = Inr tc'"
              using prop_write_twice [OF w1 tchc tch'c] w' by simp
            have tstep: "set_loop tc (seg # P') tv = Inr tc'"
              using Cons trd w1 trb trun w2 by (simp add: tchild_def)
            show ?thesis
              using step Inr tstep rc len others by simp
          qed
        qed
      qed
    qed
  qed
qed

theorem store_setValueAtPath_refines:
  assumes "represents h rootv t" and "represents h v tv"
  shows "rel_sum (=) (\<lambda>hr t'. represents (fst hr) (snd hr) t')
           (store_setValueAtPath h rootv p v) (setValueAtPath t p tv)"
proof (cases "segments_of p = []")
  case True
  then have "store_setValueAtPath h rootv p v = Inr (h, v)" "setValueAtPath t p tv = Inr tv"
    by (auto simp: store_setValueAtPath_def setValueAtPath_def segments_of_def split: option.splits)
  with assms(2) show ?thesis by simp
next
  case False
  then obtain P where p: "p = Some P" and P: "P \<noteq> []"
    by (cases p) (auto simp: segments_of_def)
  define c where "c = length h"
  define h1 where "h1 = h @ [copy_cell h rootv]"
  have ext1: "\<forall>a<length h. h1 ! a = h ! a" by (simp add: h1_def nth_append)
  have cr: "cell_rel (represents h) (h1 ! c) (shallow_copy t)"
    using cell_rel_copy [OF assms(1), of h] by (simp add: h1_def c_def)
  have "length h \<le> c" "c < length h1" by (simp_all add: c_def h1_def)
  from store_set_loop_refines [OF P this ext1 cr assms(2)]
  have rel: "rel_sum (=)
     (\<lambda>h' tc'. represents h' (VRef c) tc' \<and> length h1 \<le> length h' \<and>
        (\<forall>a<length h1. a \<noteq> c \<longrightarrow> h' ! a = h1 ! a))
     (store_set_loop h1 (VRef c) P v) (set_loop (shallow_copy t) P tv)" .
  show ?thesis
  proof (cases "store_set_loop h1 (VRef c) P v")
    case (Inl e)
    with rel rel_sum_InlD have "set_loop (shallow_copy t) P tv = Inl e" by fastforce
    with Inl p P show ?thesis
      by (simp add: store_setValueAtPath_def setValueAtPath_def allocate_def h1_def c_def)
  next
    case (Inr h')
    with rel rel_sum_InrD
      [of "\<lambda>h' tc'. represents h' (VRef c) tc' \<and> length h1 \<le> length h' \<and>
        (\<forall>a<length h1. a \<noteq> c \<longrightarrow> h' ! a = h1 ! a)" h' "set_loop (shallow_copy t) P tv"]
    obtain t' where "set_loop (shallow_copy t) P tv = Inr t'" "represents h' (VRef c) t'" by auto
    with Inr p P show ?thesis
      by (simp add: store_setValueAtPath_def setValueAtPath_def allocate_def h1_def c_def)
  qed
qed

end
